theory Spec2Isabelle
  imports Complex_Main
begin

section \<open>Procedural starfield generator: the sampling core and the field build\<close>

text \<open>
  The development embeds \<^verbatim>\<open>src/starfield_generator/__init__.py\<close>.
  Python integers are \<^typ>\<open>int\<close>. The values of Python's \<^verbatim>\<open>random\<close> library and the
  numbers of the settings are doubles, modelled as the reals they denote, and
  \<^verbatim>\<open>random.uniform\<close> as the exact \<open>a + (b - a) * u\<close>. The host's
  \<^verbatim>\<open>mathutils.Vector\<close> holds single-precision floats: its arithmetic is modelled with
  IEEE rounding to nearest (ties to even), overflow to infinity and NaN. The module-global
  generator of Python's \<^verbatim>\<open>random\<close> library and the host's object database
  (\<^verbatim>\<open>bpy.data\<close>) are explicit state.
\<close>

subsection \<open>Floating-point numbers\<close>

text \<open>
  A float is a real number, an infinity or NaN (the sign of zero is not kept). Rounding to
  a format of precision \<open>p\<close> bits and least normal exponent \<open>emin\<close> takes the nearest
  multiple of the spacing at the argument's exponent, ties to the even multiple; the
  spacing below \<open>2 ^ emin\<close> is that of the subnormal numbers. A rounded magnitude of
  \<open>2 ^ (emax + 1)\<close> or more overflows to an infinity.
\<close>

datatype fl = Fin real | PInf | NInf | NaN

definition round_even :: "real \<Rightarrow> int" where
  "round_even x =
     (let n = \<lfloor>x\<rfloor>; r = x - of_int n
      in if r < 1 / 2 then n else if 1 / 2 < r then n + 1 else if even n then n else n + 1)"

definition round_to :: "nat \<Rightarrow> int \<Rightarrow> real \<Rightarrow> real" where
  "round_to p emin x =
     (if x = 0 then 0
      else (let q = 2 powr of_int (max \<lfloor>log 2 \<bar>x\<bar>\<rfloor> emin - (int p - 1))
            in of_int (round_even (x / q)) * q))"

definition to_fl :: "nat \<Rightarrow> int \<Rightarrow> int \<Rightarrow> real \<Rightarrow> fl" where
  "to_fl p emin emax x =
     (let y = round_to p emin x
      in if 2 powr of_int (emax + 1) \<le> \<bar>y\<bar> then (if 0 < y then PInf else NInf) else Fin y)"

text \<open>C's \<^verbatim>\<open>float\<close> (binary32) and \<^verbatim>\<open>double\<close> (binary64).\<close>

definition to_float32 :: "real \<Rightarrow> fl" where
  "to_float32 = to_fl 24 (- 126) 127"

definition to_float64 :: "real \<Rightarrow> fl" where
  "to_float64 = to_fl 53 (- 1022) 1023"

text \<open>The product of two \<^verbatim>\<open>float\<close>s, the sum of two \<^verbatim>\<open>double\<close>s, the
  \<^verbatim>\<open>double\<close> square root and the comparison \<^verbatim>\<open><=\<close>.\<close>

fun f32_mul :: "fl \<Rightarrow> fl \<Rightarrow> fl" where
  "f32_mul NaN b = NaN"
| "f32_mul a NaN = NaN"
| "f32_mul (Fin a) (Fin b) = to_float32 (a * b)"
| "f32_mul (Fin a) PInf = (if a = 0 then NaN else if 0 < a then PInf else NInf)"
| "f32_mul (Fin a) NInf = (if a = 0 then NaN else if 0 < a then NInf else PInf)"
| "f32_mul PInf (Fin b) = (if b = 0 then NaN else if 0 < b then PInf else NInf)"
| "f32_mul NInf (Fin b) = (if b = 0 then NaN else if 0 < b then NInf else PInf)"
| "f32_mul PInf PInf = PInf"
| "f32_mul PInf NInf = NInf"
| "f32_mul NInf PInf = NInf"
| "f32_mul NInf NInf = PInf"

fun f64_add :: "fl \<Rightarrow> fl \<Rightarrow> fl" where
  "f64_add NaN b = NaN"
| "f64_add a NaN = NaN"
| "f64_add (Fin a) (Fin b) = to_float64 (a + b)"
| "f64_add (Fin a) PInf = PInf"
| "f64_add (Fin a) NInf = NInf"
| "f64_add PInf (Fin b) = PInf"
| "f64_add NInf (Fin b) = NInf"
| "f64_add PInf PInf = PInf"
| "f64_add PInf NInf = NaN"
| "f64_add NInf PInf = NaN"
| "f64_add NInf NInf = NInf"

fun f64_sqrt :: "fl \<Rightarrow> fl" where
  "f64_sqrt (Fin a) = (if a < 0 then NaN else to_float64 (sqrt a))"
| "f64_sqrt PInf = PInf"
| "f64_sqrt NInf = NaN"
| "f64_sqrt NaN = NaN"

fun float_le :: "fl \<Rightarrow> fl \<Rightarrow> bool" where
  "float_le NaN b = False"
| "float_le a NaN = False"
| "float_le (Fin a) (Fin b) = (a \<le> b)"
| "float_le NInf b = True"
| "float_le a PInf = True"
| "float_le PInf b = False"
| "float_le a NInf = False"

subsection \<open>Vectors\<close>

text \<open>
  \<^verbatim>\<open>mathutils.Vector\<close> with three components, each a \<^verbatim>\<open>float\<close>.
  \<^verbatim>\<open>Vector((x, y, z))\<close> converts the three Python floats to \<^verbatim>\<open>float\<close>.
  \<^verbatim>\<open>.length\<close> is the host's \<^verbatim>\<open>sqrt(dot_vn_vn(vec, vec, 3))\<close>: the products are
  \<^verbatim>\<open>float\<close> products, added to a \<^verbatim>\<open>double\<close> that starts at zero, last component
  first, and the square root is taken in \<^verbatim>\<open>double\<close>. \<^verbatim>\<open>point * radius\<close> converts
  the scalar to \<^verbatim>\<open>float\<close> and multiplies every component by it in \<^verbatim>\<open>float\<close>.
\<close>

type_synonym vec3 = "real \<times> real \<times> real"

type_synonym fvec = "fl \<times> fl \<times> fl"

fun Vector :: "vec3 \<Rightarrow> fvec" where
  "Vector (x, y, z) = (to_float32 x, to_float32 y, to_float32 z)"

fun Vector_length :: "fvec \<Rightarrow> fl" where
  "Vector_length (x, y, z) =
     f64_sqrt (f64_add (f64_add (f64_add (Fin 0) (f32_mul z z)) (f32_mul y y)) (f32_mul x x))"

fun Vector_mul :: "fvec \<Rightarrow> real \<Rightarrow> fvec" where
  "Vector_mul (x, y, z) r = (let s = to_float32 r in (f32_mul x s, f32_mul y s, f32_mul z s))"

subsection \<open>The random source\<close>

text \<open>
  The state of the library generator: the sequence of values that successive calls of
  \<^verbatim>\<open>random.random()\<close> return after the last seeding, and the number of values
  already taken from it.
\<close>

record rng_state =
  draws :: "nat \<Rightarrow> real"
  pos :: nat

text \<open>\<^verbatim>\<open>random.random()\<close>: the next value of the sequence.\<close>

definition random_random :: "rng_state \<Rightarrow> real \<times> rng_state" where
  "random_random g = (draws g (pos g), g\<lparr>pos := pos g + 1\<rparr>)"

text \<open>\<^verbatim>\<open>random.uniform(a, b)\<close> is the library's \<^verbatim>\<open>a + (b - a) * self.random()\<close>.\<close>

definition uniform :: "real \<Rightarrow> real \<Rightarrow> rng_state \<Rightarrow> real \<times> rng_state" where
  "uniform a b g = (let (u, g') = random_random g in (a + (b - a) * u, g'))"

text \<open>
  \<^verbatim>\<open>random.seed(n)\<close> replaces the generator state by the one the seed determines.
  The library's generator algorithm is a parameter \<open>gen\<close>: the sequence of values that
  follows seed \<open>n\<close> is \<open>gen n\<close>.
\<close>

definition seed :: "(int \<Rightarrow> nat \<Rightarrow> real) \<Rightarrow> int \<Rightarrow> rng_state" where
  "seed gen n = \<lparr>draws = gen n, pos = 0\<rparr>"

subsection \<open>The sphere sampler\<close>

text \<open>
  \<^verbatim>\<open>random_point_in_sphere\<close>: the \<^verbatim>\<open>while True\<close> loop has no exit but the
  \<^verbatim>\<open>return\<close>, so the model is a partial function: \<open>None\<close> is the run that never
  returns. The three coordinates are drawn left to right.
\<close>

partial_function (option) random_point_in_sphere ::
  "real \<Rightarrow> rng_state \<Rightarrow> (fvec \<times> rng_state) option" where
  "random_point_in_sphere radius g =
     (let (x, g1) = uniform (- 1) 1 g;
          (y, g2) = uniform (- 1) 1 g1;
          (z, g3) = uniform (- 1) 1 g2;
          point = Vector (x, y, z)
      in if float_le (Vector_length point) (Fin 1) then Some (Vector_mul point radius, g3)
         else random_point_in_sphere radius g3)"

subsection \<open>Formatting\<close>

text \<open>Decimal digits of a natural number, as \<^verbatim>\<open>str\<close> and the format
  specification \<^verbatim>\<open>d\<close> print them.\<close>

definition digit_char :: "nat \<Rightarrow> char" where
  "digit_char d = ''0123456789'' ! (d mod 10)"

fun str_nat :: "nat \<Rightarrow> string" where
  "str_nat n = (if n < 10 then [digit_char n] else str_nat (n div 10) @ [digit_char (n mod 10)])"

declare str_nat.simps [simp del]

definition str_int :: "int \<Rightarrow> string" where
  "str_int i = (if i < 0 then CHR ''-'' # str_nat (nat (- i)) else str_nat (nat i))"

text \<open>\<^verbatim>\<open>f"{i:05d}"\<close> for the non-negative loop index: zero-padded to width 5.\<close>

definition fmt_05d :: "nat \<Rightarrow> string" where
  "fmt_05d i = (let s = str_nat i in replicate (5 - length s) CHR ''0'' @ s)"

subsection \<open>Settings\<close>

definition STAR_MESH_NAME :: string where
  "STAR_MESH_NAME = ''Starfield_StarMesh''"

definition STAR_MATERIAL_NAME :: string where
  "STAR_MATERIAL_NAME = ''Starfield_StarMaterial''"

text \<open>The dataclass \<^verbatim>\<open>StarfieldSettings\<close>.\<close>

record starfield_settings =
  star_count :: int
  field_radius :: real
  star_size_min :: real
  star_size_max :: real
  base_brightness :: real
  brightness_variation :: real
  collection_name :: string
  clear_existing :: bool
  random_seed :: int

text \<open>The property group \<^verbatim>\<open>StarfieldProperties\<close> read by the operator
  (\<^verbatim>\<open>context.scene.starfield_props\<close>); the values are whatever the scene holds.\<close>

record starfield_props =
  props_collection_name :: string
  props_clear_existing :: bool
  props_star_count :: int
  props_field_radius :: real
  props_random_seed :: int
  props_star_size_min :: real
  props_star_size_max :: real
  props_base_brightness :: real
  props_brightness_variation :: real

subsection \<open>The host's data\<close>

text \<open>
  The part of \<^verbatim>\<open>bpy.data\<close> and of the scene that the addon reads and writes.
  An object is identified by its index in \<open>objects\<close>; a removed object leaves \<open>None\<close>
  behind, so an index is never used twice. Collections, meshes and materials are found by
  name, as \<^verbatim>\<open>bpy.data.collections.get(name)\<close> does; a collection lists the indices of
  the objects linked to it, in link order. A mesh is reduced to its material slots and a
  material to the two node inputs that depend on the settings: the geometry and the rest
  of the node graph are constants of the source.
\<close>

record blend_object =
  ob_name :: string
  ob_data :: string
  location :: fvec
  scale :: vec3

record mesh =
  mesh_materials :: "string list"
  use_auto_smooth :: bool

record material =
  brightness_scale_input :: real
  brightness_add_input :: real

record world =
  rng :: rng_state
  objects :: "blend_object option list"
  collections :: "string \<rightharpoonup> nat list"
  scene_children :: "string list"
  meshes :: "string \<rightharpoonup> mesh"
  materials :: "string \<rightharpoonup> material"

definition lookup_object :: "world \<Rightarrow> nat \<Rightarrow> blend_object option" where
  "lookup_object w i = (if i < length (objects w) then objects w ! i else None)"

text \<open>\<^verbatim>\<open>collection.objects\<close> of the collection of that name.\<close>

definition collection_objects :: "world \<Rightarrow> string \<Rightarrow> nat list" where
  "collection_objects w name = (case collections w name of None \<Rightarrow> [] | Some ids \<Rightarrow> ids)"

text \<open>\<^verbatim>\<open>bpy.data.objects.new(name, mesh)\<close>: a new object at the origin with unit
  scale; the result is its index. The name stored is the name asked for.\<close>

definition objects_new :: "string \<Rightarrow> string \<Rightarrow> world \<Rightarrow> nat \<times> world" where
  "objects_new name mesh_name w =
     (length (objects w),
      w\<lparr>objects := objects w @
          [Some \<lparr>ob_name = name, ob_data = mesh_name, location = (Fin 0, Fin 0, Fin 0),
                  scale = (1, 1, 1)\<rparr>]\<rparr>)"

text \<open>\<^verbatim>\<open>bpy.data.objects.remove(obj, do_unlink=True)\<close>: the object leaves the
  database and every collection it is linked to.\<close>

definition objects_remove :: "nat \<Rightarrow> world \<Rightarrow> world" where
  "objects_remove i w =
     w\<lparr>objects := (objects w)[i := None],
       collections := (\<lambda>name. map_option (removeAll i) (collections w name))\<rparr>"

text \<open>\<^verbatim>\<open>collection.objects.link(obj)\<close>.\<close>

definition objects_link :: "string \<Rightarrow> nat \<Rightarrow> world \<Rightarrow> world" where
  "objects_link name i w =
     w\<lparr>collections := (collections w)(name \<mapsto> collection_objects w name @ [i])\<rparr>"

text \<open>Assignments to \<^verbatim>\<open>star_object.location\<close> and \<^verbatim>\<open>star_object.scale\<close>.\<close>

definition set_location :: "nat \<Rightarrow> fvec \<Rightarrow> world \<Rightarrow> world" where
  "set_location i v w =
     (case lookup_object w i of None \<Rightarrow> w
      | Some ob \<Rightarrow> w\<lparr>objects := (objects w)[i := Some (ob\<lparr>location := v\<rparr>)]\<rparr>)"

definition set_scale :: "nat \<Rightarrow> vec3 \<Rightarrow> world \<Rightarrow> world" where
  "set_scale i v w =
     (case lookup_object w i of None \<Rightarrow> w
      | Some ob \<Rightarrow> w\<lparr>objects := (objects w)[i := Some (ob\<lparr>scale := v\<rparr>)]\<rparr>)"

subsection \<open>The addon's functions\<close>

text \<open>\<^verbatim>\<open>ensure_collection(scene, name)\<close>; the result is the collection's name.\<close>

definition ensure_collection :: "string \<Rightarrow> world \<Rightarrow> string \<times> world" where
  "ensure_collection name w =
     (case collections w name of
        None \<Rightarrow> (name, w\<lparr>collections := (collections w)(name \<mapsto> []),
                          scene_children := scene_children w @ [name]\<rparr>)
      | Some ids \<Rightarrow> (name, w))"

text \<open>\<^verbatim>\<open>clear_collection(collection)\<close>: the loop runs over a copy of the object list
  taken before the first removal.\<close>

definition clear_collection :: "string \<Rightarrow> world \<Rightarrow> world" where
  "clear_collection name w = fold objects_remove (collection_objects w name) w"

definition ensure_star_mesh :: "world \<Rightarrow> string \<times> world" where
  "ensure_star_mesh w =
     (case meshes w STAR_MESH_NAME of
        Some m \<Rightarrow> (STAR_MESH_NAME, w)
      | None \<Rightarrow> (STAR_MESH_NAME,
          w\<lparr>meshes := (meshes w)(STAR_MESH_NAME \<mapsto>
               \<lparr>mesh_materials = [], use_auto_smooth = False\<rparr>)\<rparr>))"

text \<open>\<^verbatim>\<open>ensure_star_material(settings)\<close>: the node graph is rebuilt on every call,
  so the material's inputs are those of the current settings whether or not the material
  existed.\<close>

definition ensure_star_material :: "starfield_settings \<Rightarrow> world \<Rightarrow> string \<times> world" where
  "ensure_star_material settings w =
     (STAR_MATERIAL_NAME,
      w\<lparr>materials := (materials w)(STAR_MATERIAL_NAME \<mapsto>
           \<lparr>brightness_scale_input = brightness_variation settings,
            brightness_add_input = base_brightness settings\<rparr>)\<rparr>)"

text \<open>Lines 161 to 164 of \<^verbatim>\<open>generate_starfield\<close>: the mesh gets the material as
  its only slot unless it has it already.\<close>

definition attach_material :: "string \<Rightarrow> string \<Rightarrow> world \<Rightarrow> world" where
  "attach_material mesh_name mat_name w =
     (case meshes w mesh_name of
        None \<Rightarrow> w
      | Some m \<Rightarrow>
          (let has_material = (\<exists>mat \<in> set (mesh_materials m). mat = mat_name)
           in if \<not> has_material
              then w\<lparr>meshes := (meshes w)(mesh_name \<mapsto> m\<lparr>mesh_materials := [mat_name]\<rparr>)\<rparr>
              else w))"

text \<open>The body of the \<^verbatim>\<open>for\<close> loop of \<^verbatim>\<open>generate_starfield\<close> for index \<open>i\<close>.\<close>

definition star_step ::
  "starfield_settings \<Rightarrow> string \<Rightarrow> string \<Rightarrow> nat \<Rightarrow> world \<Rightarrow> world option" where
  "star_step settings collection mesh_name i w =
     (let (star_object, w1) = objects_new (''Star_'' @ fmt_05d i) mesh_name w
      in case random_point_in_sphere (field_radius settings) (rng w1) of
           None \<Rightarrow> None
         | Some (p, g1) \<Rightarrow>
             (let w2 = set_location star_object p (w1\<lparr>rng := g1\<rparr>);
                  (star_scale, g2) =
                     uniform (star_size_min settings) (star_size_max settings) (rng w2);
                  w3 = set_scale star_object (star_scale, star_scale, star_scale)
                         (w2\<lparr>rng := g2\<rparr>)
              in Some (objects_link collection star_object w3)))"

text \<open>The loop over \<^verbatim>\<open>range(settings.star_count)\<close>, here over the list of its
  indices.\<close>

fun star_loop ::
  "starfield_settings \<Rightarrow> string \<Rightarrow> string \<Rightarrow> nat list \<Rightarrow> world \<Rightarrow> world option" where
  "star_loop settings collection mesh_name [] w = Some w"
| "star_loop settings collection mesh_name (i # rest) w =
     (case star_step settings collection mesh_name i w of
        None \<Rightarrow> None
      | Some w' \<Rightarrow> star_loop settings collection mesh_name rest w')"

text \<open>\<^verbatim>\<open>generate_starfield(context, settings)\<close>; the context gives the scene, which is
  part of the world here. \<^verbatim>\<open>range(n)\<close> is empty for \<open>n \<le> 0\<close>.\<close>

definition generate_starfield ::
  "(int \<Rightarrow> nat \<Rightarrow> real) \<Rightarrow> starfield_settings \<Rightarrow> world \<Rightarrow> world option" where
  "generate_starfield gen settings w =
     (let w0 = w\<lparr>rng := seed gen (random_seed settings)\<rparr>;
          (collection, w1) = ensure_collection (collection_name settings) w0;
          w2 = (if clear_existing settings then clear_collection collection w1 else w1);
          (mesh_name, w3) = ensure_star_mesh w2;
          (mat_name, w4) = ensure_star_material settings w3;
          w5 = attach_material mesh_name mat_name w4
      in star_loop settings collection mesh_name [0..<nat (star_count settings)] w5)"

subsection \<open>The operator\<close>

text \<open>Python's \<^verbatim>\<open>max(a, b)\<close> keeps the first argument unless the second is greater.\<close>

definition py_max :: "real \<Rightarrow> real \<Rightarrow> real" where
  "py_max a b = (if b > a then b else a)"

datatype report_type = INFO | WARNING | ERROR

datatype operator_status = FINISHED | CANCELLED

text \<open>Lines 183 to 196 of \<^verbatim>\<open>STARFIELD_OT_generate.execute\<close>: the settings built
  from the properties.\<close>

definition execute_settings :: "starfield_props \<Rightarrow> starfield_settings" where
  "execute_settings props =
     (let star_size_min = py_max 0.0001 (props_star_size_min props);
          star_size_max = py_max star_size_min (props_star_size_max props)
      in \<lparr>star_count = props_star_count props,
          field_radius = props_field_radius props,
          star_size_min = star_size_min,
          star_size_max = star_size_max,
          base_brightness = props_base_brightness props,
          brightness_variation = props_brightness_variation props,
          collection_name = props_collection_name props,
          clear_existing = props_clear_existing props,
          random_seed = props_random_seed props\<rparr>)"

text \<open>\<^verbatim>\<open>STARFIELD_OT_generate.execute\<close>: the new world, the reports made and the
  returned status.\<close>

definition execute ::
  "(int \<Rightarrow> nat \<Rightarrow> real) \<Rightarrow> starfield_props \<Rightarrow> world
     \<Rightarrow> (world \<times> (report_type \<times> string) list \<times> operator_status) option" where
  "execute gen props w =
     (let settings = execute_settings props
      in case generate_starfield gen settings w of
           None \<Rightarrow> None
         | Some w' \<Rightarrow>
             Some (w',
                   [(INFO, ''Generated '' @ str_int (star_count settings) @ '' stars in '' @
                           [CHR 0x27] @ collection_name settings @ [CHR 0x27] @
                           '' collection'')],
                   FINISHED))"

subsection \<open>Auxiliary notions\<close>

text \<open>The Euclidean norm of a triple of reals, in exact arithmetic.\<close>

definition norm3 :: "vec3 \<Rightarrow> real" where
  "norm3 v = (case v of (x, y, z) \<Rightarrow> sqrt (x * x + y * y + z * z))"

text \<open>The candidate that the sampler builds from the three draws at the indices \<open>n\<close>,
  \<open>n + 1\<close> and \<open>n + 2\<close> of the stream \<open>d\<close>: each coordinate is
  \<open>uniform (- 1) 1\<close> of one draw.\<close>

definition candidate_at :: "(nat \<Rightarrow> real) \<Rightarrow> nat \<Rightarrow> vec3" where
  "candidate_at d n =
     (- 1 + (1 - (- 1)) * d n, - 1 + (1 - (- 1)) * d (n + 1), - 1 + (1 - (- 1)) * d (n + 2))"

text \<open>The test of the sampler's \<^verbatim>\<open>if\<close> on that candidate: its \<^verbatim>\<open>Vector\<close>
  has a computed length \<^verbatim>\<open><= 1.0\<close>.\<close>

definition accepted :: "(nat \<Rightarrow> real) \<Rightarrow> nat \<Rightarrow> bool" where
  "accepted d n = float_le (Vector_length (Vector (candidate_at d n))) (Fin 1)"

text \<open>The sampler started in state \<open>g\<close> rejects \<open>k\<close> candidates and returns \<open>res\<close>.\<close>

definition first_accept :: "real \<Rightarrow> rng_state \<Rightarrow> fvec \<times> rng_state \<Rightarrow> nat \<Rightarrow> bool" where
  "first_accept r g res k \<longleftrightarrow>
     (\<forall>j<k. \<not> accepted (draws g) (pos g + 3 * j)) \<and> accepted (draws g) (pos g + 3 * k) \<and>
     res = (Vector_mul (Vector (candidate_at (draws g) (pos g + 3 * k))) r, g\<lparr>pos := pos g + 3 * (k + 1)\<rparr>)"

text \<open>The star an iteration makes and the generator state it leaves; then the stars of
  a whole loop. Both are shown equal to what \<open>star_step\<close> and \<open>star_loop\<close> do.\<close>

definition star_of ::
  "starfield_settings \<Rightarrow> string \<Rightarrow> nat \<Rightarrow> rng_state \<Rightarrow> (blend_object \<times> rng_state) option" where
  "star_of settings mesh_name i g =
     (case random_point_in_sphere (field_radius settings) g of
        None \<Rightarrow> None
      | Some (p, g1) \<Rightarrow>
          (let s = star_size_min settings +
                   (star_size_max settings - star_size_min settings) * draws g1 (pos g1)
           in Some (\<lparr>ob_name = ''Star_'' @ fmt_05d i, ob_data = mesh_name, location = p,
                      scale = (s, s, s)\<rparr>,
                    g1\<lparr>pos := pos g1 + 1\<rparr>)))"

fun stars_of ::
  "starfield_settings \<Rightarrow> string \<Rightarrow> nat list \<Rightarrow> rng_state
     \<Rightarrow> (blend_object list \<times> rng_state) option" where
  "stars_of settings mesh_name [] g = Some ([], g)"
| "stars_of settings mesh_name (i # rest) g =
     (case star_of settings mesh_name i g of
        None \<Rightarrow> None
      | Some (ob, g') \<Rightarrow>
          (case stars_of settings mesh_name rest g' of
             None \<Rightarrow> None
           | Some (obs, g'') \<Rightarrow> Some (ob # obs, g'')))"

text \<open>The effect of a loop that made the stars \<open>obs\<close> on the world it started in.\<close>

definition add_stars :: "string \<Rightarrow> blend_object list \<Rightarrow> rng_state \<Rightarrow> world \<Rightarrow> world" where
  "add_stars collection obs g w =
     w\<lparr>rng := g,
       objects := objects w @ map Some obs,
       collections := (if obs = [] then collections w else (collections w)(collection \<mapsto>
          collection_objects w collection @
            [length (objects w)..<length (objects w) + length obs]))\<rparr>"

text \<open>A stream is recurrent when, from every index on, some later candidate (at a step of
  three draws) is accepted: the sampler started anywhere on it will return.\<close>

definition recurrent :: "(nat \<Rightarrow> real) \<Rightarrow> bool" where
  "recurrent d \<longleftrightarrow> (\<forall>n. \<exists>k. accepted d (n + 3 * k))"

text \<open>The contract of \<^verbatim>\<open>random.random()\<close>: every value lies in \<open>[0, 1)\<close>.\<close>

definition unit_draws :: "(nat \<Rightarrow> real) \<Rightarrow> bool" where
  "unit_draws d \<longleftrightarrow> (\<forall>n. 0 \<le> d n \<and> d n < 1)"

text \<open>The world in which the loop of \<open>generate_starfield\<close> starts.\<close>

definition prepared :: "(int \<Rightarrow> nat \<Rightarrow> real) \<Rightarrow> starfield_settings \<Rightarrow> world \<Rightarrow> world" where
  "prepared gen settings w =
     (let w0 = w\<lparr>rng := seed gen (random_seed settings)\<rparr>;
          (collection, w1) = ensure_collection (collection_name settings) w0;
          w2 = (if clear_existing settings then clear_collection collection w1 else w1);
          (mesh_name, w3) = ensure_star_mesh w2;
          (mat_name, w4) = ensure_star_material settings w3
      in attach_material mesh_name mat_name w4)"

text \<open>The objects of \<open>w'\<close> that the database of \<open>w\<close> did not have yet: those made
  between the two.\<close>

definition created :: "world \<Rightarrow> world \<Rightarrow> blend_object list" where
  "created w w' = List.map_filter (\<lambda>x. x) (drop (length (objects w)) (objects w'))"

text \<open>Where iteration \<open>i\<close> of the loop starts to draw, when iteration \<open>j\<close> before it
  rejected \<open>ks ! j\<close> candidates: each iteration takes three draws for every candidate
  and one more for the scale.\<close>

definition draw_start :: "nat list \<Rightarrow> nat \<Rightarrow> nat" where
  "draw_start ks i = sum_list (map (\<lambda>k. 3 * k + 4) (take i ks))"

text \<open>The star \<open>ob\<close> of an iteration that starts at draw \<open>b\<close> of the stream \<open>d\<close> and
  rejects \<open>k\<close> candidates: its location comes from the draws \<open>b + 3 * k\<close> to
  \<open>b + 3 * k + 2\<close>, its scale from the draw \<open>b + 3 * k + 3\<close>.\<close>

definition star_drawn ::
  "starfield_settings \<Rightarrow> (nat \<Rightarrow> real) \<Rightarrow> nat \<Rightarrow> nat \<Rightarrow> blend_object \<Rightarrow> bool" where
  "star_drawn s d b k ob \<longleftrightarrow>
     (\<forall>j<k. \<not> accepted d (b + 3 * j)) \<and>
     accepted d (b + 3 * k) \<and>
     location ob = Vector_mul (Vector (candidate_at d (b + 3 * k))) (field_radius s) \<and>
     scale ob = (let x = star_size_min s + (star_size_max s - star_size_min s) * d (b + 3 * k + 3)
                 in (x, x, x))"

text \<open>Concrete inputs for the instances below: a generator whose first candidate is
  rejected, a scene with one object in the target collection, settings and properties.\<close>

definition example_gen :: "int \<Rightarrow> nat \<Rightarrow> real" where
  "example_gen n i =
     (if i < 3 then 0 else [1 / 4, 1 / 2, 3 / 4, 3 / 8, 5 / 8] ! ((i + nat n) mod 5))"

definition example_world :: world where
  "example_world =
     \<lparr>rng = \<lparr>draws = (\<lambda>i. 0), pos = 7\<rparr>,
      objects = [Some \<lparr>ob_name = ''Cube'', ob_data = ''Cube'',
                       location = (Fin 20, Fin 0, Fin 0),
                       scale = (1, 1, 1)\<rparr>],
      collections = [''Starfield'' \<mapsto> [0]],
      scene_children = [''Starfield''],
      meshes = Map.empty,
      materials = Map.empty\<rparr>"

definition example_settings :: starfield_settings where
  "example_settings =
     \<lparr>star_count = 2, field_radius = 10, star_size_min = 1, star_size_max = 3,
      base_brightness = 3, brightness_variation = 8, collection_name = ''Starfield'',
      clear_existing = True, random_seed = 42\<rparr>"

definition example_props :: starfield_props where
  "example_props =
     \<lparr>props_collection_name = ''Starfield'', props_clear_existing = False,
      props_star_count = 2, props_field_radius = 10, props_random_seed = 42,
      props_star_size_min = 0.5, props_star_size_max = 0.1,
      props_base_brightness = 3, props_brightness_variation = 8\<rparr>"



definition draws_1959 :: "nat \<Rightarrow> real" where
  "draws_1959 i =
     (if i = 11066 then 833264310076039 / 2 ^ 53
      else if i = 11067 then 1843486036616835 / 2 ^ 52
      else if i = 11068 then 3491171255952635 / 2 ^ 52
      else if i = 11069 then 941151606289623 / 2 ^ 52
      else if i = 11070 then 6712746706105931 / 2 ^ 53
      else if i = 11071 then 8105100477179315 / 2 ^ 53
      else if i = 11072 then 2443831907420549 / 2 ^ 52
      else if i = 11073 then 1079598097434773 / 2 ^ 51
      else if i = 11074 then 1024450187997919 / 2 ^ 52
      else 1 / 2)"

section \<open>Properties\<close>

subsection \<open>Rounding\<close>

lemma round_even_int [simp]: "round_even (of_int n) = n"
  by (simp add: round_even_def)

lemma round_even_err: "\<bar>of_int (round_even x) - x\<bar> \<le> 1 / 2"
  unfolding round_even_def Let_def by (auto simp: abs_le_iff)

lemma round_even_le: "x \<le> of_int n \<Longrightarrow> round_even x \<le> n"
proof -
  assume a: "x \<le> of_int n"
  have "\<lfloor>x\<rfloor> \<le> n" using a by (simp add: floor_le_iff) 
  show ?thesis
  proof (cases "\<lfloor>x\<rfloor> = n")
    case True
    then have "x = of_int n" using a by linarith
    then show ?thesis by simp
  next
    case False
    with \<open>\<lfloor>x\<rfloor> \<le> n\<close> have "\<lfloor>x\<rfloor> + 1 \<le> n" by simp
    then show ?thesis unfolding round_even_def Let_def by auto
  qed
qed

lemma round_even_ge: "of_int n \<le> x \<Longrightarrow> n \<le> round_even x"
proof -
  assume "of_int n \<le> x"
  then have "n \<le> \<lfloor>x\<rfloor>" by (simp add: le_floor_iff)
  then show ?thesis unfolding round_even_def Let_def by auto
qed

lemma round_even_near: "\<bar>x - of_int n\<bar> < 1 / 2 \<Longrightarrow> round_even x = n"
proof -
  assume a: "\<bar>x - of_int n\<bar> < 1 / 2"
  have "\<bar>of_int (round_even x) - x\<bar> \<le> 1 / 2" by (rule round_even_err)
  with a have "\<bar>real_of_int (round_even x) - of_int n\<bar> < 1" by linarith
  then have "\<bar>real_of_int (round_even x - n)\<bar> < 1" by simp
  then have "\<bar>round_even x - n\<bar> < 1" by linarith
  then show ?thesis by simp
qed

lemma expo_bounds:
  assumes "x \<noteq> 0"
  shows "2 powr of_int \<lfloor>log 2 \<bar>x\<bar>\<rfloor> \<le> \<bar>x\<bar>" and "\<bar>x\<bar> < 2 powr (of_int \<lfloor>log 2 \<bar>x\<bar>\<rfloor> + 1)"
  using assms floor_log_eq_powr_iff[of "\<bar>x\<bar>" 2 "\<lfloor>log 2 \<bar>x\<bar>\<rfloor>"] by simp_all

lemma expo_unique:
  assumes "2 powr of_int e \<le> \<bar>x\<bar>" and "\<bar>x\<bar> < 2 powr (of_int e + 1)"
  shows "\<lfloor>log 2 \<bar>x\<bar>\<rfloor> = e"
proof -
  have "0 < 2 powr real_of_int e" by simp
  with assms(1) have "0 < \<bar>x\<bar>" by linarith
  then show ?thesis using assms floor_log_eq_powr_iff[of "\<bar>x\<bar>" 2 e] by simp
qed

lemma round_to_scaled:
  assumes "x \<noteq> 0"
  shows "round_to p emin x =
     of_int (round_even (x / 2 powr of_int (max \<lfloor>log 2 \<bar>x\<bar>\<rfloor> emin - (int p - 1)))) *
       2 powr of_int (max \<lfloor>log 2 \<bar>x\<bar>\<rfloor> emin - (int p - 1))"
  using assms by (simp add: round_to_def Let_def)

lemma round_to_err:
  "\<bar>round_to p emin x - x\<bar> \<le> 2 powr (- real p) * \<bar>x\<bar> + 2 powr (of_int emin - real p)"
proof (cases "x = 0")
  case True
  then show ?thesis by (simp add: round_to_def)
next
  case False
  define e where "e = \<lfloor>log 2 \<bar>x\<bar>\<rfloor>"
  define q :: real where "q = 2 powr of_int (max e emin - (int p - 1))"
  have q: "0 < q" by (simp add: q_def)
  have r: "round_to p emin x = of_int (round_even (x / q)) * q"
    using round_to_scaled[OF False] by (simp add: q_def e_def)
  have "\<bar>of_int (round_even (x / q)) * q - x\<bar> = \<bar>of_int (round_even (x / q)) - x / q\<bar> * q"
  proof -
    have "of_int (round_even (x / q)) * q - x = (of_int (round_even (x / q)) - x / q) * q"
      using q by (simp add: field_simps)
    then show ?thesis using q by (simp add: abs_mult)
  qed
  also have "\<dots> \<le> (1 / 2) * q"
    using round_even_err[of "x / q"] q by (intro mult_right_mono) simp_all
  also have "(1 / 2) * q = 2 powr (of_int (max e emin) - real p)"
  proof -
    have "(1 / 2 :: real) = 2 powr (- 1)" by simp
    then have "(1 / 2) * q = 2 powr (- 1) * 2 powr of_int (max e emin - (int p - 1))"
      by (simp add: q_def)
    also have "\<dots> = 2 powr (- 1 + of_int (max e emin - (int p - 1)))"
      by (simp only: powr_add)
    also have "- 1 + real_of_int (max e emin - (int p - 1)) = of_int (max e emin) - real p"
      by simp
    finally show ?thesis .
  qed
  also have "\<dots> \<le> 2 powr (- real p) * \<bar>x\<bar> + 2 powr (of_int emin - real p)"
  proof (cases "emin \<le> e")
    case True
    then have "2 powr (of_int (max e emin) - real p) = 2 powr (- real p) * 2 powr of_int e"
      by (simp add: max_def powr_add[symmetric])
    also have "\<dots> \<le> 2 powr (- real p) * \<bar>x\<bar>"
      using expo_bounds(1)[OF False] by (intro mult_left_mono) (simp_all add: e_def)
    finally show ?thesis
      by (smt (verit) powr_gt_zero)
  next
    case False
    then have "2 powr (of_int (max e emin) - real p) = 2 powr (of_int emin - real p)"
      by (simp add: max_def)
    moreover have "0 \<le> 2 powr (- real p) * \<bar>x\<bar>" by simp
    ultimately show ?thesis by linarith
  qed
  finally show ?thesis using r by simp
qed

lemma pow2_int: "0 \<le> k \<Longrightarrow> 2 powr real_of_int k = of_int (2 ^ nat k)"
  by (simp add: powr_real_of_int)

lemma round_to_pow2_bound:
  assumes "\<bar>x\<bar> \<le> 2 powr of_int k" and "emin - (int p - 1) \<le> k" and "0 < p"
  shows "\<bar>round_to p emin x\<bar> \<le> 2 powr of_int k"
proof (cases "x = 0")
  case True
  then show ?thesis by (simp add: round_to_def)
next
  case False
  define e where "e = \<lfloor>log 2 \<bar>x\<bar>\<rfloor>"
  define ue where "ue = max e emin - (int p - 1)"
  define q :: real where "q = 2 powr of_int ue"
  have q: "0 < q" by (simp add: q_def)
  have r: "round_to p emin x = of_int (round_even (x / q)) * q"
    using round_to_scaled[OF False] by (simp add: q_def ue_def e_def)
  have "(2::real) powr of_int e \<le> 2 powr of_int k"
    using expo_bounds(1)[OF False] assms(1) unfolding e_def by linarith
  then have "e \<le> k" by simp
  with assms(2,3) have uk: "ue \<le> k" by (simp add: ue_def max_def)
  define m where "m = (2::int) ^ nat (k - ue)"
  have m: "2 powr of_int k = of_int m * q"
  proof -
    have "2 powr real_of_int k = 2 powr (of_int (k - ue) + of_int ue)" by simp
    also have "\<dots> = 2 powr of_int (k - ue) * 2 powr of_int ue" by (simp only: powr_add)
    also have "2 powr real_of_int (k - ue) = of_int m"
      unfolding m_def using uk by (intro pow2_int) simp
    finally show ?thesis by (simp add: q_def)
  qed
  have b: "x / q \<le> of_int m" "of_int (- m) \<le> x / q"
    using assms(1) m q by (simp_all add: field_simps abs_le_iff)
  have "round_even (x / q) \<le> m" and "- m \<le> round_even (x / q)"
    using round_even_le[OF b(1)] round_even_ge[OF b(2)] by simp_all
  then have "\<bar>round_even (x / q)\<bar> \<le> m" by simp
  then have "\<bar>real_of_int (round_even (x / q))\<bar> \<le> of_int m"
    by (metis of_int_abs of_int_le_iff)
  then have "\<bar>real_of_int (round_even (x / q))\<bar> * q \<le> of_int m * q"
    using q by (intro mult_right_mono) simp_all
  with r m q show ?thesis by (simp add: abs_mult)
qed

lemma round_to_exact:
  assumes "\<bar>n\<bar> < 2 ^ p" and "emin - (int p - 1) \<le> j" and "0 < p"
  shows "round_to p emin (of_int n * 2 powr of_int j) = of_int n * 2 powr of_int j"
proof (cases "n = 0")
  case True
  then show ?thesis by (simp add: round_to_def)
next
  case False
  define x where "x = of_int n * 2 powr real_of_int j"
  have x0: "x \<noteq> 0" using False by (simp add: x_def)
  define e where "e = \<lfloor>log 2 \<bar>x\<bar>\<rfloor>"
  define ue where "ue = max e emin - (int p - 1)"
  define q :: real where "q = 2 powr real_of_int ue"
  have q: "0 < q" by (simp add: q_def)
  have r: "round_to p emin x = of_int (round_even (x / q)) * q"
    using round_to_scaled[OF x0] by (simp add: q_def ue_def e_def)
  have "\<bar>real_of_int n\<bar> < 2 ^ p"
    using assms(1) by (metis of_int_abs of_int_less_iff of_int_numeral of_int_power)
  then have "\<bar>x\<bar> < 2 ^ p * 2 powr real_of_int j"
    by (simp add: x_def abs_mult)
  also have "(2::real) ^ p = 2 powr real p" by (simp add: powr_realpow)
  also have "2 powr real p * 2 powr real_of_int j = 2 powr real_of_int (int p + j)"
    by (simp add: powr_add)
  finally have "\<bar>x\<bar> < 2 powr real_of_int (int p + j)" .
  moreover have "2 powr real_of_int e \<le> \<bar>x\<bar>"
    using expo_bounds(1)[OF x0] by (simp add: e_def)
  ultimately have "2 powr real_of_int e < 2 powr real_of_int (int p + j)" by linarith
  then have "e < int p + j" by simp
  with assms(2) have uj: "ue \<le> j" by (simp add: ue_def max_def)
  define m where "m = n * 2 ^ nat (j - ue)"
  have "x / q = of_int n * (2 powr real_of_int j / 2 powr real_of_int ue)"
    by (simp add: x_def q_def)
  also have "2 powr real_of_int j / 2 powr real_of_int ue = 2 powr real_of_int (j - ue)"
    by (simp add: powr_diff)
  also have "\<dots> = of_int (2 ^ nat (j - ue))"
    using uj by (intro pow2_int) simp
  finally have "x / q = of_int m" by (simp add: m_def)
  then have "round_even (x / q) = m" and "x = of_int m * q"
    using q by (simp_all add: field_simps)
  with r show ?thesis by (simp add: x_def)
qed

lemma round_to_near:
  assumes "2 powr of_int e \<le> \<bar>x\<bar>" and "\<bar>x\<bar> < 2 powr (of_int e + 1)"
    and "\<bar>x / 2 powr of_int (max e emin - (int p - 1)) - of_int n\<bar> < 1 / 2"
  shows "round_to p emin x = of_int n * 2 powr of_int (max e emin - (int p - 1))"
proof -
  have "0 < 2 powr real_of_int e" by simp
  with assms(1) have x0: "x \<noteq> 0" by auto
  have "\<lfloor>log 2 \<bar>x\<bar>\<rfloor> = e" using assms(1,2) by (rule expo_unique)
  with round_to_scaled[OF x0, of p emin] round_even_near[OF assms(3)]
  show ?thesis by simp
qed

lemma to_fl_Fin: "to_fl p emin emax x = Fin y \<longleftrightarrow>
    y = round_to p emin x \<and> \<bar>round_to p emin x\<bar> < 2 powr of_int (emax + 1)"
  by (auto simp: to_fl_def Let_def)

lemma to_fl_bounded:
  "\<bar>round_to p emin x\<bar> < 2 powr of_int (emax + 1) \<Longrightarrow> to_fl p emin emax x = Fin (round_to p emin x)"
  by (simp add: to_fl_Fin)

lemma round_to_nonneg: "0 \<le> x \<Longrightarrow> 0 \<le> round_to p emin x"
proof (cases "x = 0")
  case True
  then show ?thesis by (simp add: round_to_def)
next
  case False
  assume "0 \<le> x"
  define q :: real where "q = 2 powr of_int (max \<lfloor>log 2 \<bar>x\<bar>\<rfloor> emin - (int p - 1))"
  have q: "0 < q" by (simp add: q_def)
  with \<open>0 \<le> x\<close> have "of_int 0 \<le> x / q" by simp
  then have "0 \<le> round_even (x / q)" by (rule round_even_ge)
  with q round_to_scaled[OF False, of p emin] show ?thesis by (simp add: q_def)
qed

lemma f32_err: "\<bar>round_to 24 (- 126) x - x\<bar> \<le> \<bar>x\<bar> / 2 ^ 24 + 1 / 2 ^ 150"
proof -
  have "\<bar>round_to 24 (- 126) x - x\<bar> \<le> 2 powr (- real 24) * \<bar>x\<bar> + 2 powr (of_int (- 126) - real 24)"
    by (rule round_to_err)
  also have "2 powr (- real 24) = 1 / 2 ^ 24" by (simp add: powr_neg_numeral)
  also have "2 powr (of_int (- 126) - real 24) = 1 / 2 ^ 150" by (simp add: powr_neg_numeral)
  finally show ?thesis by simp
qed

lemma f64_err: "\<bar>round_to 53 (- 1022) x - x\<bar> \<le> \<bar>x\<bar> / 2 ^ 53 + 1 / 2 ^ 150"
proof -
  have "\<bar>round_to 53 (- 1022) x - x\<bar> \<le> 2 powr (- real 53) * \<bar>x\<bar> + 2 powr (of_int (- 1022) - real 53)"
    by (rule round_to_err)
  also have "2 powr (- real 53) = 1 / 2 ^ 53" by (simp add: powr_neg_numeral)
  also have "2 powr (of_int (- 1022) - real 53) \<le> 2 powr (- 150)" by simp
  also have "2 powr (- 150 :: real) = 1 / 2 ^ 150" by (simp add: powr_neg_numeral)
  finally show ?thesis by simp
qed

lemma f32_pow2_bound:
  "\<bar>x\<bar> \<le> 2 powr of_int k \<Longrightarrow> - 149 \<le> k \<Longrightarrow> \<bar>round_to 24 (- 126) x\<bar> \<le> 2 powr of_int k"
  by (rule round_to_pow2_bound) simp_all

lemma f64_pow2_bound:
  "\<bar>x\<bar> \<le> 2 powr of_int k \<Longrightarrow> - 1074 \<le> k \<Longrightarrow> \<bar>round_to 53 (- 1022) x\<bar> \<le> 2 powr of_int k"
  by (rule round_to_pow2_bound) simp_all

lemma to_float32_Fin:
  "\<bar>x\<bar> \<le> 2 powr of_int k \<Longrightarrow> - 149 \<le> k \<Longrightarrow> k \<le> 127 \<Longrightarrow>
   to_float32 x = Fin (round_to 24 (- 126) x)"
proof -
  assume a: "\<bar>x\<bar> \<le> 2 powr of_int k" "- 149 \<le> k" "k \<le> 127"
  then have "\<bar>round_to 24 (- 126) x\<bar> \<le> 2 powr of_int k" by (intro f32_pow2_bound)
  also have "2 powr real_of_int k < 2 powr of_int (127 + 1)"
    using a(3) by (intro powr_less_mono) simp_all
  finally show ?thesis unfolding to_float32_def by (rule to_fl_bounded)
qed

lemma to_float64_Fin:
  "\<bar>x\<bar> \<le> 2 powr of_int k \<Longrightarrow> - 1074 \<le> k \<Longrightarrow> k \<le> 1023 \<Longrightarrow>
   to_float64 x = Fin (round_to 53 (- 1022) x)"
proof -
  assume a: "\<bar>x\<bar> \<le> 2 powr of_int k" "- 1074 \<le> k" "k \<le> 1023"
  then have "\<bar>round_to 53 (- 1022) x\<bar> \<le> 2 powr of_int k" by (intro f64_pow2_bound)
  also have "2 powr real_of_int k < 2 powr of_int (1023 + 1)"
    using a(3) by (intro powr_less_mono) simp_all
  finally show ?thesis unfolding to_float64_def by (rule to_fl_bounded)
qed

lemma to_fl_nonneg: "0 \<le> x \<Longrightarrow> to_fl p emin emax x \<noteq> NInf"
proof -
  assume "0 \<le> x"
  then have "0 \<le> round_to p emin x" by (rule round_to_nonneg)
  moreover have "0 < 2 powr real_of_int (emax + 1)" by simp
  ultimately show ?thesis unfolding to_fl_def Let_def by (auto split: if_splits)
qed

lemma f64_sqrt_le_D:
  assumes "float_le (f64_sqrt t) (Fin 1)"
  obtains d where "t = Fin d" "0 \<le> d" "round_to 53 (- 1022) (sqrt d) \<le> 1"
proof (cases t)
  case (Fin d)
  show ?thesis
  proof (cases "d < 0")
    case True
    with Fin assms show ?thesis by simp
  next
    case False
    have "to_float64 (sqrt d) \<noteq> NInf"
      unfolding to_float64_def using False by (intro to_fl_nonneg) simp
    with Fin False assms obtain y where "to_float64 (sqrt d) = Fin y" "y \<le> 1"
      by (cases "to_float64 (sqrt d)") simp_all
    then have "round_to 53 (- 1022) (sqrt d) \<le> 1"
      by (simp add: to_float64_def to_fl_Fin)
    with Fin False that show ?thesis by simp
  qed
qed (use assms in simp_all)

lemma f64_add_Fin_D:
  assumes "f64_add s t = Fin d"
  obtains a b where "s = Fin a" "t = Fin b" "d = round_to 53 (- 1022) (a + b)"
  using assms by (cases s; cases t) (auto simp: to_float64_def to_fl_Fin)

lemma f32_mul_Fin_D:
  assumes "f32_mul s t = Fin d"
  obtains a b where "s = Fin a" "t = Fin b" "d = round_to 24 (- 126) (a * b)"
  using assms by (cases s; cases t) (auto simp: to_float32_def to_fl_Fin split: if_splits)

subsection \<open>The rounding errors of the length test and of the scaling\<close>

lemma err_upper:
  fixes r t K c :: real
  assumes "\<bar>r - t\<bar> \<le> \<bar>t\<bar> / K + c" and "0 \<le> t" and "2 \<le> K"
  shows "t \<le> (r + c) * (1 + 2 / K)"
proof -
  have K: "0 < K" using assms(3) by simp
  define h where "h = t / K"
  have "h \<le> t / 2" unfolding h_def using assms(2,3) by (intro divide_left_mono) simp_all
  moreover have tr: "t - r \<le> h + c" using assms(1,2) by (simp add: abs_le_iff h_def)
  ultimately have "t / 2 \<le> r + c" by linarith
  then have c1: "t \<le> 2 * (r + c)" by simp
  then have "h \<le> 2 * (r + c) / K" unfolding h_def using K by (intro divide_right_mono) simp_all
  with tr have "t \<le> r + c + 2 * (r + c) / K" by linarith
  then show ?thesis by (simp add: algebra_simps)
qed

lemma err_upper_lin:
  fixes r t K c :: real
  assumes "\<bar>r - t\<bar> \<le> \<bar>t\<bar> / K + c" and "0 \<le> t" and "2 \<le> K" and "r + c \<le> 3"
  shows "t \<le> r + c + 6 / K"
proof -
  have K: "0 < K" using assms(3) by simp
  have "t \<le> (r + c) * (1 + 2 / K)" using assms(1-3) by (rule err_upper)
  also have "\<dots> = r + c + (r + c) * (2 / K)" by (simp add: algebra_simps)
  also have "(r + c) * (2 / K) \<le> 3 * (2 / K)"
    using assms(4) K by (intro mult_right_mono) simp_all
  finally show ?thesis by simp
qed

lemma sqrt_one_plus: "0 \<le> t \<Longrightarrow> sqrt (1 + t) \<le> 1 + t / 2"
proof -
  assume t: "0 \<le> t"
  have "1 + t \<le> (1 + t / 2)\<^sup>2" by (simp add: power2_eq_square algebra_simps)
  then show ?thesis using t by (intro real_le_lsqrt) simp_all
qed

lemma accepted_squares:
  assumes "float_le (Vector_length (a, b, c)) (Fin 1)"
  obtains x y z where "a = Fin x" "b = Fin y" "c = Fin z"
    "x * x + y * y + z * z \<le> 1 + 1 / 2 ^ 22"
proof -
  let ?c0 = "1 / 2 ^ 150 :: real"
  from assms have "float_le (f64_sqrt (f64_add (f64_add (f64_add (Fin 0) (f32_mul c c))
      (f32_mul b b)) (f32_mul a a))) (Fin 1)"
    by simp
  then obtain d3 where
    T3: "f64_add (f64_add (f64_add (Fin 0) (f32_mul c c)) (f32_mul b b)) (f32_mul a a) = Fin d3"
    and d3: "0 \<le> d3" and L: "round_to 53 (- 1022) (sqrt d3) \<le> 1"
    by (rule f64_sqrt_le_D)
  from T3 obtain d2 sx where
    T2: "f64_add (f64_add (Fin 0) (f32_mul c c)) (f32_mul b b) = Fin d2"
    and mx: "f32_mul a a = Fin sx" and e3: "d3 = round_to 53 (- 1022) (d2 + sx)"
    by (rule f64_add_Fin_D)
  from T2 obtain d1 sy where
    T1: "f64_add (Fin 0) (f32_mul c c) = Fin d1"
    and my: "f32_mul b b = Fin sy" and e2: "d2 = round_to 53 (- 1022) (d1 + sy)"
    by (rule f64_add_Fin_D)
  from T1 obtain z0 sz where
    "Fin 0 = Fin z0" and mz: "f32_mul c c = Fin sz" and e1': "d1 = round_to 53 (- 1022) (z0 + sz)"
    by (rule f64_add_Fin_D)
  then have e1: "d1 = round_to 53 (- 1022) sz" by simp
  from mx obtain x x' where "a = Fin x" "a = Fin x'" "sx = round_to 24 (- 126) (x * x')"
    by (rule f32_mul_Fin_D)
  then have a: "a = Fin x" and sx: "sx = round_to 24 (- 126) (x * x)" by simp_all
  from my obtain y y' where "b = Fin y" "b = Fin y'" "sy = round_to 24 (- 126) (y * y')"
    by (rule f32_mul_Fin_D)
  then have b: "b = Fin y" and sy: "sy = round_to 24 (- 126) (y * y)" by simp_all
  from mz obtain z z' where "c = Fin z" "c = Fin z'" "sz = round_to 24 (- 126) (z * z')"
    by (rule f32_mul_Fin_D)
  then have c: "c = Fin z" and sz: "sz = round_to 24 (- 126) (z * z)" by simp_all
  have sx0: "0 \<le> sx" and sy0: "0 \<le> sy" and sz0: "0 \<le> sz"
    unfolding sx sy sz by (rule round_to_nonneg, simp)+
  have d10: "0 \<le> d1" unfolding e1 using sz0 by (rule round_to_nonneg)
  have d20: "0 \<le> d2" unfolding e2 using d10 sy0 by (intro round_to_nonneg) simp
  have "sqrt d3 \<le> (1 + ?c0) * (1 + 2 / 2 ^ 53)"
  proof -
    have "sqrt d3 \<le> (round_to 53 (- 1022) (sqrt d3) + ?c0) * (1 + 2 / 2 ^ 53)"
      using f64_err[of "sqrt d3"] d3 by (intro err_upper) simp_all
    also have "\<dots> \<le> (1 + ?c0) * (1 + 2 / 2 ^ 53)"
      using L by (intro mult_right_mono) simp_all
    finally show ?thesis .
  qed
  also have "\<dots> \<le> 1 + 1 / 2 ^ 51" by simp
  finally have s3: "sqrt d3 \<le> 1 + 1 / 2 ^ 51" .
  have "d3 = sqrt d3 * sqrt d3" using d3 by simp
  also have "\<dots> \<le> (1 + 1 / 2 ^ 51) * (1 + 1 / 2 ^ 51)"
    using s3 d3 by (intro mult_mono) simp_all
  also have "\<dots> \<le> 1 + 1 / 2 ^ 49" by simp
  finally have B3: "d3 \<le> 1 + 1 / 2 ^ 49" .
  have t2: "d2 + sx \<le> d3 + ?c0 + 6 / 2 ^ 53"
    using f64_err[of "d2 + sx"] d20 sx0 B3 unfolding e3[symmetric]
    by (intro err_upper_lin) simp_all
  have t1: "d1 + sy \<le> d2 + ?c0 + 6 / 2 ^ 53"
    using f64_err[of "d1 + sy"] d10 sy0 t2 sx0 B3 unfolding e2[symmetric]
    by (intro err_upper_lin) simp_all
  have t0: "sz \<le> d1 + ?c0 + 6 / 2 ^ 53"
    using f64_err[of sz] sz0 t1 sy0 t2 sx0 B3 unfolding e1[symmetric]
    by (intro err_upper_lin) simp_all
  from t0 t1 t2 B3 have S: "sx + sy + sz \<le> 1 + 1 / 2 ^ 47" by simp
  have qx: "x * x \<le> (sx + ?c0) * (1 + 2 / 2 ^ 24)"
    using f32_err[of "x * x"] unfolding sx[symmetric] by (intro err_upper) simp_all
  have qy: "y * y \<le> (sy + ?c0) * (1 + 2 / 2 ^ 24)"
    using f32_err[of "y * y"] unfolding sy[symmetric] by (intro err_upper) simp_all
  have qz: "z * z \<le> (sz + ?c0) * (1 + 2 / 2 ^ 24)"
    using f32_err[of "z * z"] unfolding sz[symmetric] by (intro err_upper) simp_all
  from qx qy qz have "x * x + y * y + z * z \<le> (sx + sy + sz + 3 * ?c0) * (1 + 2 / 2 ^ 24)"
    by (simp add: algebra_simps)
  also have "\<dots> \<le> (1 + 1 / 2 ^ 47 + 3 * ?c0) * (1 + 2 / 2 ^ 24)"
    using S by (intro mult_right_mono) simp_all
  also have "\<dots> \<le> 1 + 1 / 2 ^ 22" by simp
  finally have "x * x + y * y + z * z \<le> 1 + 1 / 2 ^ 22" .
  with a b c that show ?thesis by blast
qed

lemma norm3_mono:
  assumes "\<bar>a\<bar> \<le> a'" "\<bar>b\<bar> \<le> b'" "\<bar>c\<bar> \<le> c'"
  shows "norm3 (a, b, c) \<le> norm3 (a', b', c')"
proof -
  have sq: "u * u \<le> u' * u'" if "\<bar>u\<bar> \<le> u'" for u u' :: real
  proof -
    have "\<bar>u\<bar> * \<bar>u\<bar> \<le> u' * u'" using that by (intro mult_mono) simp_all
    then show ?thesis by simp
  qed
  from sq[OF assms(1)] sq[OF assms(2)] sq[OF assms(3)]
  show ?thesis by (simp add: norm3_def)
qed

lemma norm3_triangle:
  "norm3 (a + a', b + b', c + c') \<le> norm3 (a, b, c) + norm3 (a', b', c')"
proof -
  let ?P = "sqrt (a\<^sup>2 + b\<^sup>2)" and ?Q = "sqrt (a'\<^sup>2 + b'\<^sup>2)"
  have s: "sqrt ((a + a')\<^sup>2 + (b + b')\<^sup>2) \<le> ?P + ?Q"
    by (rule real_sqrt_sum_squares_triangle_ineq)
  have "norm3 (a + a', b + b', c + c') = sqrt ((sqrt ((a + a')\<^sup>2 + (b + b')\<^sup>2))\<^sup>2 + (c + c')\<^sup>2)"
    by (simp add: norm3_def power2_eq_square)
  also have "\<dots> \<le> sqrt ((?P + ?Q)\<^sup>2 + (c + c')\<^sup>2)"
    using s by (intro real_sqrt_le_mono add_right_mono power_mono) simp_all
  also have "\<dots> \<le> sqrt (?P\<^sup>2 + c\<^sup>2) + sqrt (?Q\<^sup>2 + c'\<^sup>2)"
    by (rule real_sqrt_sum_squares_triangle_ineq)
  also have "\<dots> = norm3 (a, b, c) + norm3 (a', b', c')"
    by (simp add: norm3_def power2_eq_square)
  finally show ?thesis .
qed

lemma norm3_scale: "0 \<le> k \<Longrightarrow> norm3 (k * a, k * b, k * c) = k * norm3 (a, b, c)"
proof -
  assume k: "0 \<le> k"
  have "k * a * (k * a) + k * b * (k * b) + k * c * (k * c) = k\<^sup>2 * (a * a + b * b + c * c)"
    by (simp add: power2_eq_square algebra_simps)
  then show ?thesis using k by (simp add: norm3_def real_sqrt_mult)
qed

lemma norm3_const: "0 \<le> c \<Longrightarrow> norm3 (c, c, c) \<le> 2 * c"
proof -
  assume c: "0 \<le> c"
  have "c * c + c * c + c * c \<le> (2 * c)\<^sup>2" by (simp add: power2_eq_square)
  then show ?thesis unfolding norm3_def using c by (simp add: real_le_lsqrt)
qed




subsection \<open>The sphere sampler\<close>

lemma rps_body:
  "(let (x, g1) = uniform (- 1) 1 g;
        (y, g2) = uniform (- 1) 1 g1;
        (z, g3) = uniform (- 1) 1 g2;
        point = Vector (x, y, z)
    in if float_le (Vector_length point) (Fin 1) then Some (Vector_mul point radius, g3)
       else f radius g3) =
   (if accepted (draws g) (pos g)
    then Some (Vector_mul (Vector (candidate_at (draws g) (pos g))) radius, g\<lparr>pos := pos g + 3\<rparr>)
    else f radius (g\<lparr>pos := pos g + 3\<rparr>))"
  by (simp add: uniform_def random_random_def accepted_def candidate_at_def Let_def
        numeral_3_eq_3 del: Vector.simps Vector_length.simps Vector_mul.simps)

lemma rps_unfold:
  "random_point_in_sphere r g =
     (if accepted (draws g) (pos g)
      then Some (Vector_mul (Vector (candidate_at (draws g) (pos g))) r, g\<lparr>pos := pos g + 3\<rparr>)
      else random_point_in_sphere r (g\<lparr>pos := pos g + 3\<rparr>))"
  by (subst random_point_in_sphere.simps) (rule rps_body)

lemma rps_skip:
  "(\<And>j. j < k \<Longrightarrow> \<not> accepted (draws g) (pos g + 3 * j)) \<Longrightarrow>
   random_point_in_sphere r g = random_point_in_sphere r (g\<lparr>pos := pos g + 3 * k\<rparr>)"
proof (induction k arbitrary: g)
  case 0
  then show ?case by simp
next
  case (Suc k)
  have "\<not> accepted (draws g) (pos g)" using Suc.prems[of 0] by simp
  then have "random_point_in_sphere r g = random_point_in_sphere r (g\<lparr>pos := pos g + 3\<rparr>)"
    by (subst rps_unfold) simp
  also have "\<dots> = random_point_in_sphere r (g\<lparr>pos := pos g + 3, pos := pos (g\<lparr>pos := pos g + 3\<rparr>) + 3 * k\<rparr>)"
  proof (rule Suc.IH)
    fix j assume "j < k"
    then show "\<not> accepted (draws (g\<lparr>pos := pos g + 3\<rparr>)) (pos (g\<lparr>pos := pos g + 3\<rparr>) + 3 * j)"
      using Suc.prems[of "Suc j"] by (simp add: algebra_simps)
  qed
  finally show ?case by (simp add: algebra_simps)
qed

lemma rps_first_accept:
  assumes "\<And>j. j < k \<Longrightarrow> \<not> accepted (draws g) (pos g + 3 * j)"
    and "accepted (draws g) (pos g + 3 * k)"
  shows "random_point_in_sphere r g =
    Some (Vector_mul (Vector (candidate_at (draws g) (pos g + 3 * k))) r, g\<lparr>pos := pos g + 3 * (k + 1)\<rparr>)"
proof -
  have "random_point_in_sphere r g = random_point_in_sphere r (g\<lparr>pos := pos g + 3 * k\<rparr>)"
    using assms(1) by (rule rps_skip)
  also have "\<dots> = Some (Vector_mul (Vector (candidate_at (draws g) (pos g + 3 * k))) r, g\<lparr>pos := pos g + 3 * (k + 1)\<rparr>)"
    using assms(2) by (subst rps_unfold) (simp add: algebra_simps)
  finally show ?thesis .
qed

lemma first_accept_0:
  "accepted (draws g) (pos g) \<Longrightarrow>
   first_accept r g (Vector_mul (Vector (candidate_at (draws g) (pos g))) r, g\<lparr>pos := pos g + 3\<rparr>) 0"
  by (simp add: first_accept_def)

lemma first_accept_Suc:
  assumes "\<not> accepted (draws g) (pos g)" and "first_accept r (g\<lparr>pos := pos g + 3\<rparr>) res k"
  shows "first_accept r g res (Suc k)"
proof -
  have "\<not> accepted (draws g) (pos g + 3 * j)" if "j < Suc k" for j
  proof (cases j)
    case 0
    with assms(1) show ?thesis by simp
  next
    case (Suc j')
    with that assms(2) have "\<not> accepted (draws g) (pos g + 3 + 3 * j')"
      by (simp add: first_accept_def)
    with Suc show ?thesis by (simp add: add.assoc)
  qed
  moreover have "accepted (draws g) (pos g + 3 * Suc k)"
    using assms(2) by (simp add: first_accept_def add.assoc)
  moreover have
    "res = (Vector_mul (Vector (candidate_at (draws g) (pos g + 3 * Suc k))) r, g\<lparr>pos := pos g + 3 * (Suc k + 1)\<rparr>)"
    using assms(2) by (simp add: first_accept_def add.assoc)
  ultimately show ?thesis by (simp add: first_accept_def)
qed

lemma rps_Some_D:
  assumes "random_point_in_sphere r g = Some res"
  shows "\<exists>k. first_accept r g res k"
proof (rule random_point_in_sphere.raw_induct[where P = "\<lambda>r g res. \<exists>k. first_accept r g res k", OF _ assms])
  fix rps :: "real \<Rightarrow> rng_state \<Rightarrow> (fvec \<times> rng_state) option" and r g res
  assume IH: "\<And>r g res. rps r g = Some res \<Longrightarrow> \<exists>k. first_accept r g res k"
  assume "(let (x, g1) = uniform (- 1) 1 g;
               (y, g2) = uniform (- 1) 1 g1;
               (z, g3) = uniform (- 1) 1 g2;
               point = Vector (x, y, z)
           in if float_le (Vector_length point) (Fin 1) then Some (Vector_mul point r, g3)
              else rps r g3) = Some res"
  then have body:
    "(if accepted (draws g) (pos g)
      then Some (Vector_mul (Vector (candidate_at (draws g) (pos g))) r, g\<lparr>pos := pos g + 3\<rparr>)
      else rps r (g\<lparr>pos := pos g + 3\<rparr>)) = Some res"
    unfolding rps_body .
  show "\<exists>k. first_accept r g res k"
  proof (cases "accepted (draws g) (pos g)")
    case True
    with body first_accept_0[OF True, of r] show ?thesis by auto
  next
    case False
    with body have "rps r (g\<lparr>pos := pos g + 3\<rparr>) = Some res" by simp
    from IH[OF this] obtain k where "first_accept r (g\<lparr>pos := pos g + 3\<rparr>) res k" ..
    from first_accept_Suc[OF False this] show ?thesis ..
  qed
qed

lemma rps_Some_I: "first_accept r g res k \<Longrightarrow> random_point_in_sphere r g = Some res"
  using rps_first_accept[of k g r] by (simp add: first_accept_def)

lemma rps_Some_iff: "random_point_in_sphere r g = Some res \<longleftrightarrow> (\<exists>k. first_accept r g res k)"
  using rps_Some_D rps_Some_I by blast

lemma rps_None_iff:
  "random_point_in_sphere r g = None \<longleftrightarrow> (\<forall>k. \<not> accepted (draws g) (pos g + 3 * k))"
proof
  assume n: "random_point_in_sphere r g = None"
  show "\<forall>k. \<not> accepted (draws g) (pos g + 3 * k)"
  proof (rule ccontr)
    assume "\<not> (\<forall>k. \<not> accepted (draws g) (pos g + 3 * k))"
    then have ex: "\<exists>k. accepted (draws g) (pos g + 3 * k)" by simp
    define k where "k = (LEAST k. accepted (draws g) (pos g + 3 * k))"
    have a: "accepted (draws g) (pos g + 3 * k)"
      unfolding k_def using ex by (rule LeastI_ex)
    have b: "\<And>j. j < k \<Longrightarrow> \<not> accepted (draws g) (pos g + 3 * j)"
      unfolding k_def by (rule not_less_Least)
    from rps_first_accept[OF b a] n show False by simp
  qed
next
  assume "\<forall>k. \<not> accepted (draws g) (pos g + 3 * k)"
  then show "random_point_in_sphere r g = None"
    using rps_Some_D[of r g] by (cases "random_point_in_sphere r g") (auto simp: first_accept_def)
qed

lemma star_step_eq:
  "star_step s c m i w = map_option (\<lambda>(ob, g). add_stars c [ob] g w) (star_of s m i (rng w))"
  by (simp add: star_step_def star_of_def objects_new_def set_location_def set_scale_def
        lookup_object_def objects_link_def uniform_def random_random_def add_stars_def
        collection_objects_def Let_def
      split: option.splits prod.splits)

lemma add_stars_Nil: "add_stars c [] (rng w) w = w"
  by (simp add: add_stars_def)

lemma upt_front: "[n..<n + Suc k] = n # [Suc n..<Suc n + k]"
  by (simp add: upt_conv_Cons)

lemma add_stars_Cons:
  "add_stars c obs g' (add_stars c [ob] g w) = add_stars c (ob # obs) g' w"
proof (cases obs)
  case Nil
  then show ?thesis by (simp add: add_stars_def)
next
  case (Cons a list)
  have "[length (objects w)..<length (objects w) + Suc (length obs)] =
        length (objects w) # [Suc (length (objects w))..<Suc (length (objects w)) + length obs]"
    by (rule upt_front)
  moreover have "[length (objects w)..<Suc (length (objects w))] = [length (objects w)]"
    by simp
  ultimately show ?thesis
    by (simp add: add_stars_def collection_objects_def Cons del: upt_Suc)
qed

lemma star_loop_eq:
  "star_loop s c m is w = map_option (\<lambda>(obs, g). add_stars c obs g w) (stars_of s m is (rng w))"
proof (induction "is" arbitrary: w)
  case Nil
  show ?case by (simp add: add_stars_Nil)
next
  case (Cons i rest)
  show ?case
  proof (cases "star_of s m i (rng w)")
    case None
    then show ?thesis by (simp add: star_step_eq)
  next
    case (Some a)
    obtain ob g where a: "a = (ob, g)" by (cases a)
    have r: "rng (add_stars c [ob] g w) = g" by (simp add: add_stars_def)
    show ?thesis
      by (simp add: star_step_eq Some a Cons.IH r add_stars_Cons split: option.splits)
  qed
qed

lemma star_of_Some_iff:
  "star_of s m i g = Some (ob, g') \<longleftrightarrow>
   (\<exists>k. (\<forall>j<k. \<not> accepted (draws g) (pos g + 3 * j)) \<and> accepted (draws g) (pos g + 3 * k) \<and>
        ob = \<lparr>ob_name = ''Star_'' @ fmt_05d i, ob_data = m,
              location = Vector_mul (Vector (candidate_at (draws g) (pos g + 3 * k))) (field_radius s),
              scale = (let x = star_size_min s + (star_size_max s - star_size_min s) *
                                 draws g (pos g + 3 * k + 3) in (x, x, x))\<rparr> \<and>
        g' = g\<lparr>pos := pos g + 3 * k + 4\<rparr>)"
  (is "?L \<longleftrightarrow> (\<exists>k. ?R k)")
proof
  assume ?L
  then obtain p g1 where rp: "random_point_in_sphere (field_radius s) g = Some (p, g1)"
    by (auto simp: star_of_def split: option.splits)
  then obtain k where k: "first_accept (field_radius s) g (p, g1) k"
    using rps_Some_D by blast
  with \<open>?L\<close> rp have "?R k"
    by (auto simp add: star_of_def first_accept_def Let_def algebra_simps)
  then show "\<exists>k. ?R k" ..
next
  assume "\<exists>k. ?R k"
  then obtain k where k: "?R k" ..
  then have "first_accept (field_radius s) g
     (Vector_mul (Vector (candidate_at (draws g) (pos g + 3 * k))) (field_radius s), g\<lparr>pos := pos g + 3 * (k + 1)\<rparr>) k"
    by (simp add: first_accept_def)
  then have "random_point_in_sphere (field_radius s) g =
     Some (Vector_mul (Vector (candidate_at (draws g) (pos g + 3 * k))) (field_radius s), g\<lparr>pos := pos g + 3 * (k + 1)\<rparr>)"
    by (rule rps_Some_I)
  with k show ?L
    by (simp add: star_of_def Let_def algebra_simps)
qed

lemma star_of_draws: "star_of s m i g = Some (ob, g') \<Longrightarrow> draws g' = draws g"
  by (auto simp: star_of_Some_iff)

lemma uniform_bounds:
  fixes a b u :: real
  assumes "a \<le> b" "0 \<le> u" "u \<le> 1"
  shows "a \<le> a + (b - a) * u" and "a + (b - a) * u \<le> b"
proof -
  from assms show "a \<le> a + (b - a) * u" by simp
  have "(b - a) * u \<le> (b - a) * 1"
    using assms by (intro mult_left_mono) simp_all
  then show "a + (b - a) * u \<le> b" by simp
qed

lemma star_of_scale:
  assumes "star_of s m i g = Some (ob, g')" "star_size_min s \<le> star_size_max s"
    "unit_draws (draws g)"
  shows "\<exists>x. scale ob = (x, x, x) \<and> star_size_min s \<le> x \<and> x \<le> star_size_max s"
proof -
  from assms(1) obtain n where
    "scale ob = (let x = star_size_min s + (star_size_max s - star_size_min s) * draws g n
                 in (x, x, x))"
    by (auto simp: star_of_Some_iff)
  moreover have "0 \<le> draws g n" "draws g n \<le> 1"
    using assms(3) by (simp_all add: unit_draws_def less_imp_le)
  ultimately show ?thesis
    using uniform_bounds[OF assms(2), of "draws g n"] by (simp add: Let_def)
qed

lemma star_of_total:
  assumes "recurrent (draws g)"
  shows "star_of s m i g \<noteq> None"
proof -
  from assms obtain k where "accepted (draws g) (pos g + 3 * k)"
    unfolding recurrent_def by blast
  then have "random_point_in_sphere (field_radius s) g \<noteq> None"
    by (auto simp: rps_None_iff)
  then show ?thesis by (auto simp: star_of_def Let_def)
qed

lemma stars_of_Cons_Some:
  "stars_of s m (i # rest) g = Some (obs, g'') \<longleftrightarrow>
   (\<exists>ob g' obs'. star_of s m i g = Some (ob, g') \<and> stars_of s m rest g' = Some (obs', g'') \<and>
      obs = ob # obs')"
  by (auto split: option.splits)

lemma stars_of_length: "stars_of s m is g = Some (obs, g') \<Longrightarrow> length obs = length is"
  by (induction "is" arbitrary: g obs) (auto simp: stars_of_Cons_Some simp del: stars_of.simps(2))

lemma stars_of_draws: "stars_of s m is g = Some (obs, g') \<Longrightarrow> draws g' = draws g"
proof (induction "is" arbitrary: g obs)
  case Nil
  then show ?case by simp
next
  case (Cons i rest)
  then show ?case
    by (auto simp: stars_of_Cons_Some simp del: stars_of.simps(2) dest!: star_of_draws)
qed

lemma stars_of_scale:
  "stars_of s m is g = Some (obs, g') \<Longrightarrow> star_size_min s \<le> star_size_max s \<Longrightarrow>
   unit_draws (draws g) \<Longrightarrow>
   \<forall>ob \<in> set obs. \<exists>x. scale ob = (x, x, x) \<and> star_size_min s \<le> x \<and> x \<le> star_size_max s"
proof (induction "is" arbitrary: g obs)
  case Nil
  then show ?case by simp
next
  case (Cons i rest)
  from Cons.prems(1) obtain ob g1 obs' where
    st: "star_of s m i g = Some (ob, g1)" and re: "stars_of s m rest g1 = Some (obs', g')"
    and obs: "obs = ob # obs'"
    unfolding stars_of_Cons_Some by blast
  have "unit_draws (draws g1)" using star_of_draws[OF st] Cons.prems(3) by simp
  from Cons.IH[OF re Cons.prems(2) this] star_of_scale[OF st Cons.prems(2,3)] obs
  show ?case by simp
qed

lemma stars_of_total:
  "recurrent (draws g) \<Longrightarrow> stars_of s m is g \<noteq> None"
proof (induction "is" arbitrary: g)
  case Nil
  then show ?case by simp
next
  case (Cons i rest)
  from star_of_total[OF Cons.prems, of s m i] obtain ob g1 where
    st: "star_of s m i g = Some (ob, g1)" by auto
  have "recurrent (draws g1)" using star_of_draws[OF st] Cons.prems by simp
  from Cons.IH[OF this] st show ?case by auto
qed

lemma map_filter_Some: "List.map_filter (\<lambda>x. x) (map Some xs) = xs"
  by (induction xs) (simp_all add: List.map_filter_simps)

lemma created_add_stars:
  "length (objects w0) = length (objects w) \<Longrightarrow> created w (add_stars c obs g w0) = obs"
  by (simp add: created_def add_stars_def map_filter_Some)

lemma fst_ensure_star_mesh: "fst (ensure_star_mesh w) = STAR_MESH_NAME"
  by (simp add: ensure_star_mesh_def split: option.splits)

lemma generate_starfield_eq:
  "generate_starfield gen s w =
     map_option (\<lambda>(obs, g). add_stars (collection_name s) obs g (prepared gen s w))
       (stars_of s STAR_MESH_NAME [0..<nat (star_count s)] (rng (prepared gen s w)))"
  unfolding generate_starfield_def prepared_def
  by (simp add: star_loop_eq ensure_collection_def ensure_star_material_def Let_def
        split_beta fst_ensure_star_mesh
      split: option.splits)

subsection \<open>What the preparation leaves\<close>

lemma attach_material_frame:
  "rng (attach_material m t w) = rng w" "objects (attach_material m t w) = objects w"
  "collections (attach_material m t w) = collections w"
  by (simp_all add: attach_material_def Let_def split: option.splits)

lemma ensure_star_mesh_frame:
  "rng (snd (ensure_star_mesh w)) = rng w" "objects (snd (ensure_star_mesh w)) = objects w"
  "collections (snd (ensure_star_mesh w)) = collections w"
  by (simp_all add: ensure_star_mesh_def split: option.splits)

lemma ensure_star_material_frame:
  "rng (snd (ensure_star_material s w)) = rng w"
  "objects (snd (ensure_star_material s w)) = objects w"
  "collections (snd (ensure_star_material s w)) = collections w"
  by (simp_all add: ensure_star_material_def)

lemma ensure_collection_frame:
  "fst (ensure_collection c w) = c"
  "rng (snd (ensure_collection c w)) = rng w"
  "objects (snd (ensure_collection c w)) = objects w"
  "collection_objects (snd (ensure_collection c w)) c = collection_objects w c"
  by (simp_all add: ensure_collection_def collection_objects_def split: option.splits)

lemma frame_collection_objects:
  "collection_objects (attach_material m t w) c = collection_objects w c"
  "collection_objects (snd (ensure_star_mesh w)) c = collection_objects w c"
  "collection_objects (snd (ensure_star_material s w)) c = collection_objects w c"
  "collection_objects (w\<lparr>rng := g\<rparr>) c = collection_objects w c"
  by (simp_all add: collection_objects_def attach_material_frame ensure_star_mesh_frame
        ensure_star_material_frame)

lemma fold_remove_frame:
  "rng (fold objects_remove ids w) = rng w"
  "length (objects (fold objects_remove ids w)) = length (objects w)"
  by (induction ids arbitrary: w) (simp_all add: objects_remove_def)

lemma fold_remove_collections:
  "collections (fold objects_remove ids w) c =
     map_option (filter (\<lambda>i. i \<notin> set ids)) (collections w c)"
proof (induction ids arbitrary: w)
  case Nil
  show ?case by (simp add: option.map_ident)
next
  case (Cons i ids)
  have "collections (objects_remove i w) c = map_option (removeAll i) (collections w c)"
    by (simp add: objects_remove_def)
  moreover have "(\<lambda>x. i \<noteq> x \<and> x \<notin> set ids) = (\<lambda>x. x \<noteq> i \<and> x \<notin> set ids)"
    by (rule ext) blast
  ultimately show ?case
    by (simp add: Cons.IH option.map_comp comp_def removeAll_filter_not_eq)
qed

lemma fold_remove_objects:
  "j < length (objects w) \<Longrightarrow>
   objects (fold objects_remove ids w) ! j = (if j \<in> set ids then None else objects w ! j)"
proof (induction ids arbitrary: w)
  case Nil
  show ?case by simp
next
  case (Cons i ids)
  have "j < length (objects (objects_remove i w))"
    using Cons.prems by (simp add: objects_remove_def)
  from Cons.IH[OF this] Cons.prems show ?case
    by (auto simp: objects_remove_def nth_list_update)
qed

lemma clear_collection_empty: "collection_objects (clear_collection c w) c = []"
  by (simp add: clear_collection_def collection_objects_def fold_remove_collections
      split: option.splits)

lemma clear_collection_removed:
  "i \<in> set (collection_objects w c) \<Longrightarrow> lookup_object (clear_collection c w) i = None"
  by (simp add: clear_collection_def lookup_object_def fold_remove_frame fold_remove_objects)

lemma prepared_rng: "rng (prepared gen s w) = seed gen (random_seed s)"
  by (simp add: prepared_def Let_def split_beta attach_material_frame ensure_star_mesh_frame
        ensure_star_material_frame ensure_collection_frame clear_collection_def
        fold_remove_frame)

lemma prepared_length: "length (objects (prepared gen s w)) = length (objects w)"
  by (simp add: prepared_def Let_def split_beta attach_material_frame ensure_star_mesh_frame
        ensure_star_material_frame ensure_collection_frame clear_collection_def
        fold_remove_frame)

lemma prepared_keep:
  "\<not> clear_existing s \<Longrightarrow> objects (prepared gen s w) = objects w"
  "\<not> clear_existing s \<Longrightarrow>
     collection_objects (prepared gen s w) (collection_name s) =
     collection_objects w (collection_name s)"
  by (simp_all add: prepared_def Let_def split_beta attach_material_frame
        ensure_star_mesh_frame ensure_star_material_frame ensure_collection_frame
        frame_collection_objects)

lemma collection_objects_cong:
  "collections w c = collections w' c \<Longrightarrow> collection_objects w c = collection_objects w' c"
  by (simp add: collection_objects_def)

lemma lookup_object_cong:
  "objects w = objects w' \<Longrightarrow> lookup_object w i = lookup_object w' i"
  by (simp add: lookup_object_def)

lemma prepared_clear:
  assumes "clear_existing s"
  shows "collection_objects (prepared gen s w) (collection_name s) = []"
    and "i \<in> set (collection_objects w (collection_name s)) \<Longrightarrow>
         lookup_object (prepared gen s w) i = None"
proof -
  let ?w0 = "w\<lparr>rng := seed gen (random_seed s)\<rparr>"
  let ?w1 = "snd (ensure_collection (collection_name s) ?w0)"
  let ?w2 = "clear_collection (collection_name s) ?w1"
  have c: "collections (prepared gen s w) = collections ?w2"
    and ob: "objects (prepared gen s w) = objects ?w2"
    using assms
    by (simp_all add: prepared_def Let_def split_beta attach_material_frame
          ensure_star_mesh_frame ensure_star_material_frame ensure_collection_frame)
  from c have "collection_objects (prepared gen s w) (collection_name s) =
               collection_objects ?w2 (collection_name s)"
    by (intro collection_objects_cong) simp
  then show "collection_objects (prepared gen s w) (collection_name s) = []"
    by (simp add: clear_collection_empty)
  assume "i \<in> set (collection_objects w (collection_name s))"
  then have "i \<in> set (collection_objects ?w1 (collection_name s))"
    by (simp add: ensure_collection_frame frame_collection_objects)
  then have "lookup_object ?w2 i = None" by (rule clear_collection_removed)
  with lookup_object_cong[OF ob] show "lookup_object (prepared gen s w) i = None" by simp
qed

lemma star_of_drawn:
  assumes "star_of s m i g = Some (ob, g')"
  shows "\<exists>k. star_drawn s (draws g) (pos g) k ob \<and> g' = g\<lparr>pos := pos g + (3 * k + 4)\<rparr>"
proof -
  from assms obtain k where
    "(\<forall>j<k. \<not> accepted (draws g) (pos g + 3 * j))" "accepted (draws g) (pos g + 3 * k)"
    "ob = \<lparr>ob_name = ''Star_'' @ fmt_05d i, ob_data = m,
              location = Vector_mul (Vector (candidate_at (draws g) (pos g + 3 * k))) (field_radius s),
              scale = (let x = star_size_min s + (star_size_max s - star_size_min s) *
                                 draws g (pos g + 3 * k + 3) in (x, x, x))\<rparr>"
    "g' = g\<lparr>pos := pos g + 3 * k + 4\<rparr>"
    unfolding star_of_Some_iff by blast
  then have "star_drawn s (draws g) (pos g) k ob \<and> g' = g\<lparr>pos := pos g + (3 * k + 4)\<rparr>"
    by (simp add: star_drawn_def accepted_def not_le add.assoc)
  then show ?thesis ..
qed

lemma draw_start_simps:
  "draw_start ks 0 = 0"
  "draw_start (k # ks) (Suc i) = 3 * k + 4 + draw_start ks i"
  by (simp_all add: draw_start_def)

lemma stars_of_trace:
  "stars_of s m is g = Some (obs, g') \<Longrightarrow>
   \<exists>ks. length ks = length is \<and> g' = g\<lparr>pos := pos g + draw_start ks (length is)\<rparr> \<and>
        (\<forall>i<length is. star_drawn s (draws g) (pos g + draw_start ks i) (ks ! i) (obs ! i))"
proof (induction "is" arbitrary: g obs)
  case Nil
  then show ?case by (simp add: draw_start_simps)
next
  case (Cons i0 rest)
  from Cons.prems obtain ob g1 obs' where
    st: "star_of s m i0 g = Some (ob, g1)" and re: "stars_of s m rest g1 = Some (obs', g')"
    and obs: "obs = ob # obs'"
    unfolding stars_of_Cons_Some by blast
  from star_of_drawn[OF st] obtain k where
    k: "star_drawn s (draws g) (pos g) k ob" and g1: "g1 = g\<lparr>pos := pos g + (3 * k + 4)\<rparr>"
    by blast
  from Cons.IH[OF re] obtain ks where
    len: "length ks = length rest" and g': "g' = g1\<lparr>pos := pos g1 + draw_start ks (length rest)\<rparr>"
    and tr: "\<forall>i<length rest. star_drawn s (draws g1) (pos g1 + draw_start ks i) (ks ! i) (obs' ! i)"
    by blast
  have "length (k # ks) = length (i0 # rest)" using len by simp
  moreover have "g' = g\<lparr>pos := pos g + draw_start (k # ks) (length (i0 # rest))\<rparr>"
    using g' g1 by (simp add: draw_start_simps add.assoc)
  moreover have "star_drawn s (draws g) (pos g + draw_start (k # ks) i) ((k # ks) ! i) (obs ! i)"
    if "i < length (i0 # rest)" for i
  proof (cases i)
    case 0
    with k obs show ?thesis by (simp add: draw_start_simps)
  next
    case (Suc i')
    with that have "i' < length rest" by simp
    with tr have "star_drawn s (draws g1) (pos g1 + draw_start ks i') (ks ! i') (obs' ! i')"
      by simp
    with Suc obs g1 show ?thesis by (simp add: draw_start_simps add.assoc)
  qed
  ultimately show ?case by blast
qed

lemma star_of_cong:
  "field_radius s1 = field_radius s2 \<Longrightarrow> star_size_min s1 = star_size_min s2 \<Longrightarrow>
   star_size_max s1 = star_size_max s2 \<Longrightarrow> star_of s1 m i g = star_of s2 m i g"
  by (simp add: star_of_def cong: option.case_cong)

lemma stars_of_cong:
  "field_radius s1 = field_radius s2 \<Longrightarrow> star_size_min s1 = star_size_min s2 \<Longrightarrow>
   star_size_max s1 = star_size_max s2 \<Longrightarrow> stars_of s1 m is g = stars_of s2 m is g"
  by (induction "is" arbitrary: g) (simp_all add: star_of_cong[of s1 s2] split: option.splits)

lemma generate_starfield_Some:
  assumes "generate_starfield gen s w = Some w'"
  obtains obs g where
    "stars_of s STAR_MESH_NAME [0..<nat (star_count s)] (seed gen (random_seed s)) = Some (obs, g)"
    "w' = add_stars (collection_name s) obs g (prepared gen s w)"
    "created w w' = obs"
  using assms unfolding generate_starfield_eq prepared_rng
  by (auto simp: created_add_stars prepared_length)

lemma generate_starfield_None:
  "generate_starfield gen s w = None \<longleftrightarrow>
   stars_of s STAR_MESH_NAME [0..<nat (star_count s)] (seed gen (random_seed s)) = None"
  unfolding generate_starfield_eq prepared_rng by simp

lemma collection_objects_add_stars:
  "collection_objects (add_stars c obs g w) c =
     collection_objects w c @ [length (objects w)..<length (objects w) + length obs]"
  by (simp add: add_stars_def collection_objects_def)

lemma lookup_object_add_stars:
  "lookup_object (add_stars c obs g w) i =
     (if i < length (objects w) then lookup_object w i
      else if i < length (objects w) + length obs then Some (obs ! (i - length (objects w)))
      else None)"
  by (simp add: add_stars_def lookup_object_def nth_append)

subsection \<open>Evaluation\<close>

lemma rps_accept:
  "accepted (draws g) (pos g) \<Longrightarrow>
   random_point_in_sphere r g =
     Some (Vector_mul (Vector (candidate_at (draws g) (pos g))) r, g\<lparr>pos := pos g + 3\<rparr>)"
  by (subst rps_unfold) simp

lemma rps_reject:
  "\<not> accepted (draws g) (pos g) \<Longrightarrow>
   random_point_in_sphere r g = random_point_in_sphere r (g\<lparr>pos := pos g + 3\<rparr>)"
  by (subst rps_unfold) simp

lemma str_nat_small: "n < 10 \<Longrightarrow> str_nat n = [digit_char n]"
  by (subst str_nat.simps) simp

lemma str_nat_big: "\<not> n < 10 \<Longrightarrow> str_nat n = str_nat (n div 10) @ [digit_char (n mod 10)]"
  by (subst str_nat.simps) simp

lemma replicate_small:
  "replicate 4 x = [x, x, x, x]" "replicate 3 x = [x, x, x]" "replicate 2 x = [x, x]"
  by (simp_all add: numeral_eq_Suc)

lemma upt_0_2: "[0..<2] = [0, 1]"
  by (simp add: numeral_eq_Suc)

text \<open>Multiples of \<open>2 ^ - 20\<close> below 16 are \<^verbatim>\<open>float\<close>s, and \<^verbatim>\<open>double\<close>s.\<close>

lemma round_to_dyadic:
  assumes "x * 2 ^ 20 \<in> \<int>" and "\<bar>x\<bar> < 16" and "24 \<le> p" and "emin \<le> - 126"
  shows "round_to p emin x = x"
proof -
  from assms(1) obtain n :: int where n: "x * 2 ^ 20 = of_int n" by (auto elim: Ints_cases)
  then have x: "x = of_int n * 2 powr of_int (- 20)" by (simp add: powr_neg_numeral)
  have "\<bar>real_of_int n\<bar> < 16 * 2 ^ 20" using assms(2) n[symmetric] by (simp add: abs_mult)
  then have "\<bar>real_of_int n\<bar> < real_of_int (2 ^ 24)" by simp
  then have "\<bar>n\<bar> < 2 ^ 24" by (metis of_int_abs of_int_less_iff)
  also have "(2::int) ^ 24 \<le> 2 ^ p" using assms(3) by (intro power_increasing) simp_all
  finally have "\<bar>n\<bar> < 2 ^ p" .
  moreover have "emin - (int p - 1) \<le> - 20" using assms(3,4) by simp
  moreover have "0 < p" using assms(3) by simp
  ultimately have "round_to p emin (of_int n * 2 powr of_int (- 20)) = of_int n * 2 powr of_int (- 20)"
    by (rule round_to_exact)
  with x show ?thesis by simp
qed

lemma to_float32_dyadic: "x * 2 ^ 20 \<in> \<int> \<Longrightarrow> \<bar>x\<bar> < 16 \<Longrightarrow> to_float32 x = Fin x"
proof -
  assume a: "x * 2 ^ 20 \<in> \<int>" "\<bar>x\<bar> < 16"
  then have r: "round_to 24 (- 126) x = x" by (rule round_to_dyadic) simp_all
  have "(16::real) \<le> 2 powr real_of_int (127 + 1)" by (simp add: powr_numeral)
  with a(2) r have "\<bar>round_to 24 (- 126) x\<bar> < 2 powr real_of_int (127 + 1)" by linarith
  then show ?thesis unfolding to_float32_def using r by (simp add: to_fl_bounded)
qed

lemma to_float64_dyadic: "x * 2 ^ 20 \<in> \<int> \<Longrightarrow> \<bar>x\<bar> < 16 \<Longrightarrow> to_float64 x = Fin x"
proof -
  assume a: "x * 2 ^ 20 \<in> \<int>" "\<bar>x\<bar> < 16"
  then have r: "round_to 53 (- 1022) x = x" by (rule round_to_dyadic) simp_all
  have "(16::real) \<le> 2 powr real_of_int (1023 + 1)" by (simp add: powr_numeral)
  with a(2) r have "\<bar>round_to 53 (- 1022) x\<bar> < 2 powr real_of_int (1023 + 1)" by linarith
  then show ?thesis unfolding to_float64_def using r by (simp add: to_fl_bounded)
qed

text \<open>The outcome of the length test from the sum of the squares.\<close>

lemma f64_sqrt_le_1: "0 \<le> d \<Longrightarrow> d \<le> 1 \<Longrightarrow> float_le (f64_sqrt (Fin d)) (Fin 1)"
proof -
  assume d: "0 \<le> d" "d \<le> 1"
  then have "sqrt d \<le> 1" by simp
  then have b: "\<bar>sqrt d\<bar> \<le> 2 powr of_int 0" using d(1) by simp
  then have "to_float64 (sqrt d) = Fin (round_to 53 (- 1022) (sqrt d))"
    by (rule to_float64_Fin) simp_all
  moreover from b have "\<bar>round_to 53 (- 1022) (sqrt d)\<bar> \<le> 2 powr of_int 0"
    by (rule f64_pow2_bound) simp
  ultimately show ?thesis using d(1) by simp
qed

lemma f64_sqrt_gt_1:
  assumes "1 + 1 / 2 ^ 40 \<le> d" and "d \<le> 4"
  shows "\<not> float_le (f64_sqrt (Fin d)) (Fin 1)"
proof -
  have d0: "0 \<le> d" using assms(1) by (rule order_trans[rotated]) simp
  have "sqrt d \<le> sqrt 4" using assms(2) by (simp only: real_sqrt_le_iff)
  then have s2: "sqrt d \<le> 2" by simp
  then have "\<bar>sqrt d\<bar> \<le> 2 powr of_int 1" using d0 by simp
  then have f: "to_float64 (sqrt d) = Fin (round_to 53 (- 1022) (sqrt d))"
    by (rule to_float64_Fin) simp_all
  have "(1 + 1 / 2 ^ 42)\<^sup>2 \<le> (1 + 1 / 2 ^ 40 :: real)" by (simp add: power2_eq_square)
  with assms(1) have "(1 + 1 / 2 ^ 42)\<^sup>2 \<le> d" by linarith
  then have s1: "1 + 1 / 2 ^ 42 \<le> sqrt d" by (rule real_le_rsqrt)
  have "sqrt d / 2 ^ 53 \<le> 2 / 2 ^ 53" using s2 by (intro divide_right_mono) simp_all
  moreover have "\<bar>round_to 53 (- 1022) (sqrt d) - sqrt d\<bar> \<le> \<bar>sqrt d\<bar> / 2 ^ 53 + 1 / 2 ^ 150"
    by (rule f64_err)
  ultimately have "sqrt d - 2 / 2 ^ 53 - 1 / 2 ^ 150 \<le> round_to 53 (- 1022) (sqrt d)"
    using d0 by (simp add: abs_le_iff)
  with s1 have "1 < round_to 53 (- 1022) (sqrt d)" by simp
  with f d0 show ?thesis by simp
qed

text \<open>A candidate with every coordinate in \<open>[- 1 / 2, 1 / 2]\<close> passes the test.\<close>

lemma small_accepted:
  assumes "\<bar>x\<bar> \<le> 1 / 2" "\<bar>y\<bar> \<le> 1 / 2" "\<bar>z\<bar> \<le> 1 / 2"
  shows "float_le (Vector_length (Vector (x, y, z))) (Fin 1)"
proof -
  have coord: "\<exists>a. to_float32 u = Fin a \<and> \<bar>a\<bar> \<le> 1 / 2" if "\<bar>u\<bar> \<le> 1 / 2" for u
  proof -
    from that have b: "\<bar>u\<bar> \<le> 2 powr of_int (- 1)" by (simp add: powr_neg_numeral)
    then have "to_float32 u = Fin (round_to 24 (- 126) u)" by (rule to_float32_Fin) simp_all
    moreover from b have "\<bar>round_to 24 (- 126) u\<bar> \<le> 2 powr of_int (- 1)"
      by (rule f32_pow2_bound) simp
    ultimately show ?thesis by (simp add: powr_neg_numeral)
  qed
  have square: "\<exists>s. f32_mul (Fin a) (Fin a) = Fin s \<and> 0 \<le> s \<and> s \<le> 1 / 4" if "\<bar>a\<bar> \<le> 1 / 2" for a
  proof -
    have "\<bar>a\<bar> * \<bar>a\<bar> \<le> (1 / 2) * (1 / 2)" using that by (intro mult_mono) simp_all
    then have b: "\<bar>a * a\<bar> \<le> 2 powr of_int (- 2)" by (simp add: powr_neg_numeral abs_mult)
    then have "to_float32 (a * a) = Fin (round_to 24 (- 126) (a * a))"
      by (rule to_float32_Fin) simp_all
    moreover from b have "\<bar>round_to 24 (- 126) (a * a)\<bar> \<le> 2 powr of_int (- 2)"
      by (rule f32_pow2_bound) simp
    moreover have "0 \<le> round_to 24 (- 126) (a * a)" by (rule round_to_nonneg) simp
    ultimately show ?thesis by (simp add: powr_neg_numeral)
  qed
  have add: "\<exists>d. f64_add (Fin a) (Fin b) = Fin d \<and> 0 \<le> d \<and> d \<le> 2 powr of_int k"
    if "0 \<le> a" "0 \<le> b" "a + b \<le> 2 powr of_int k" "- 2 \<le> k" "k \<le> 0" for a b k
  proof -
    from that have b: "\<bar>a + b\<bar> \<le> 2 powr of_int k" by simp
    have k: "- 1074 \<le> k" "k \<le> 1023" using that(4,5) by simp_all
    from b k have "to_float64 (a + b) = Fin (round_to 53 (- 1022) (a + b))"
      by (rule to_float64_Fin)
    moreover from b k(1) have "\<bar>round_to 53 (- 1022) (a + b)\<bar> \<le> 2 powr of_int k"
      by (rule f64_pow2_bound)
    moreover have "0 \<le> round_to 53 (- 1022) (a + b)"
      using that(1,2) by (intro round_to_nonneg) simp
    ultimately show ?thesis by simp
  qed
  from coord[OF assms(1)] coord[OF assms(2)] coord[OF assms(3)] obtain a b c where
    v: "to_float32 x = Fin a" "to_float32 y = Fin b" "to_float32 z = Fin c"
    and abc: "\<bar>a\<bar> \<le> 1 / 2" "\<bar>b\<bar> \<le> 1 / 2" "\<bar>c\<bar> \<le> 1 / 2"
    by blast
  from square[OF abc(1)] square[OF abc(2)] square[OF abc(3)] obtain sa sb sc where
    s: "f32_mul (Fin a) (Fin a) = Fin sa" "f32_mul (Fin b) (Fin b) = Fin sb"
       "f32_mul (Fin c) (Fin c) = Fin sc"
    and sq: "0 \<le> sa" "sa \<le> 1 / 4" "0 \<le> sb" "sb \<le> 1 / 4" "0 \<le> sc" "sc \<le> 1 / 4"
    by blast
  from add[of 0 sc "- 2"] sq obtain d1 where
    d1: "f64_add (Fin 0) (Fin sc) = Fin d1" "0 \<le> d1" "d1 \<le> 1 / 4"
    by (auto simp: powr_neg_numeral)
  from add[of d1 sb "- 1"] sq d1 obtain d2 where
    d2: "f64_add (Fin d1) (Fin sb) = Fin d2" "0 \<le> d2" "d2 \<le> 1 / 2"
    by (auto simp: powr_neg_numeral)
  from add[of d2 sa 0] sq d2 obtain d3 where
    d3: "f64_add (Fin d2) (Fin sa) = Fin d3" "0 \<le> d3" "d3 \<le> 1"
    by auto
  from s have s': "to_float32 (a * a) = Fin sa" "to_float32 (b * b) = Fin sb"
    "to_float32 (c * c) = Fin sc"
    by simp_all
  from f64_sqrt_le_1[OF d3(2,3)] show ?thesis
    by (simp add: v s' d1 d2 d3 del: f64_sqrt.simps f64_add.simps)
qed

lemmas float_simps =
  to_float32_dyadic to_float64_dyadic f64_sqrt_le_1 f64_sqrt_gt_1 Let_def

lemmas run_simps =
  generate_starfield_def execute_def execute_settings_def py_max_def seed_def
  ensure_collection_def clear_collection_def collection_objects_def objects_remove_def
  ensure_star_mesh_def ensure_star_material_def attach_material_def STAR_MESH_NAME_def
  STAR_MATERIAL_NAME_def star_step_def objects_new_def rps_accept rps_reject accepted_def
  candidate_at_def set_location_def set_scale_def lookup_object_def uniform_def
  random_random_def objects_link_def fmt_05d_def str_nat_small str_nat_big digit_char_def
  replicate_small upt_0_2 example_gen_def example_world_def example_settings_def
  example_props_def created_def str_int_def float_simps

lemma example_gen_range:
  assumes "3 \<le> i"
  shows "1 / 4 \<le> example_gen n i" and "example_gen n i \<le> 3 / 4"
proof -
  let ?xs = "[1 / 4, 1 / 2, 3 / 4, 3 / 8, 5 / 8] :: real list"
  have "(i + nat n) mod 5 < length ?xs" by simp
  then have "?xs ! ((i + nat n) mod 5) \<in> set ?xs" by (rule nth_mem)
  moreover have "\<forall>x \<in> set ?xs. 1 / 4 \<le> x \<and> x \<le> 3 / 4" by simp
  ultimately have "1 / 4 \<le> ?xs ! ((i + nat n) mod 5) \<and> ?xs ! ((i + nat n) mod 5) \<le> 3 / 4"
    by blast
  with assms show "1 / 4 \<le> example_gen n i" and "example_gen n i \<le> 3 / 4"
    by (simp_all add: example_gen_def)
qed

lemma example_gen_unit: "unit_draws (example_gen n)"
  unfolding unit_draws_def
proof
  fix i
  show "0 \<le> example_gen n i \<and> example_gen n i < 1"
  proof (cases "3 \<le> i")
    case True
    from example_gen_range[OF True, of n] show ?thesis by simp
  next
    case False
    then show ?thesis by (simp add: example_gen_def)
  qed
qed

lemma example_gen_accepted: "3 \<le> i \<Longrightarrow> accepted (example_gen n) i"
proof -
  assume i: "3 \<le> i"
  have c: "\<bar>- 1 + (1 - (- 1)) * example_gen n j\<bar> \<le> 1 / 2" if "3 \<le> j" for j
  proof -
    have "- 1 + (1 - (- 1)) * example_gen n j = 2 * example_gen n j - 1" by simp
    with example_gen_range[OF that, of n] show ?thesis by linarith
  qed
  have "3 \<le> i + 1" "3 \<le> i + 2" using i by simp_all
  from small_accepted[OF c[OF i] c[OF this(1)] c[OF this(2)]]
  show ?thesis by (simp add: accepted_def candidate_at_def)
qed

lemma example_gen_recurrent: "recurrent (example_gen n)"
  unfolding recurrent_def
proof
  fix i
  have "accepted (example_gen n) (i + 3 * 1)" by (rule example_gen_accepted) simp
  then show "\<exists>k. accepted (example_gen n) (i + 3 * k)" ..
qed

lemma example_run:
  "map_option (created example_world)
     (generate_starfield example_gen example_settings example_world) =
   Some [\<lparr>ob_name = ''Star_00000'', ob_data = ''Starfield_StarMesh'', location = (Fin (- 5), Fin 0, Fin 5),
           scale = (7 / 4, 7 / 4, 7 / 4)\<rparr>,
         \<lparr>ob_name = ''Star_00001'', ob_data = ''Starfield_StarMesh'', location = (Fin (5 / 2), Fin (- 5), Fin 0),
           scale = (5 / 2, 5 / 2, 5 / 2)\<rparr>]"
  by (simp add: run_simps del: f64_sqrt.simps)

lemma example_exec_run:
  "map_option (\<lambda>(w', reports, status). (map scale (created example_world w'), reports, status))
     (execute example_gen example_props example_world) =
   Some ([(1 / 2, 1 / 2, 1 / 2), (1 / 2, 1 / 2, 1 / 2)],
         [(INFO, ''Generated 2 stars in '' @ [CHR 0x27] @ ''Starfield'' @ [CHR 0x27] @ '' collection'')],
         FINISHED)"
  by (simp add: run_simps del: f64_sqrt.simps)

subsection \<open>Rounding a given number\<close>

lemma to_float32_near_neg:
  assumes "1 / 2 ^ k \<le> \<bar>x\<bar>" and "\<bar>x\<bar> < 2 / 2 ^ k" and "k \<le> 126"
    and "\<bar>x * 2 ^ (23 + k) - of_int n\<bar> < 1 / 2"
  shows "to_float32 x = Fin (of_int n / 2 ^ (23 + k))"
proof -
  define e where "e = - int k"
  have pe: "2 powr real_of_int e = 1 / 2 ^ k"
    by (simp add: e_def powr_minus powr_realpow divide_inverse)
  have pe1: "2 powr (real_of_int e + 1) = 2 / 2 ^ k"
    by (simp add: powr_add pe)
  have m: "max e (- 126) - (int 24 - 1) = - int (23 + k)"
    using assms(3) by (simp add: e_def)
  have pq: "2 powr real_of_int (- int (23 + k)) = 1 / 2 ^ (23 + k)"
    by (simp add: powr_minus powr_realpow divide_inverse del: of_nat_add)
  have "round_to 24 (- 126) x = of_int n * 2 powr of_int (max e (- 126) - (int 24 - 1))"
  proof (rule round_to_near)
    show "2 powr real_of_int e \<le> \<bar>x\<bar>" using assms(1) by (simp only: pe)
    show "\<bar>x\<bar> < 2 powr (real_of_int e + 1)" using assms(2) by (simp only: pe1)
    show "\<bar>x / 2 powr real_of_int (max e (- 126) - (int 24 - 1)) - real_of_int n\<bar> < 1 / 2"
      using assms(4) by (simp only: m pq) simp
  qed
  then have r: "round_to 24 (- 126) x = of_int n / 2 ^ (23 + k)"
    by (simp only: m pq) simp
  have "2 / 2 ^ k \<le> (2::real)" by (simp add: field_simps)
  with assms(2) have "\<bar>x\<bar> \<le> 2 powr of_int 1" by simp
  then have "to_float32 x = Fin (round_to 24 (- 126) x)" by (rule to_float32_Fin) simp_all
  with r show ?thesis by simp
qed

lemma to_float32_near_pos:
  assumes "2 ^ k \<le> \<bar>x\<bar>" and "\<bar>x\<bar> < 2 * 2 ^ k" and "k \<le> 23"
    and "\<bar>x * 2 ^ (23 - k) - of_int n\<bar> < 1 / 2"
  shows "to_float32 x = Fin (of_int n / 2 ^ (23 - k))"
proof -
  define e where "e = int k"
  have pe: "2 powr real_of_int e = 2 ^ k"
    by (simp add: e_def powr_realpow)
  have pe1: "2 powr (real_of_int e + 1) = 2 * 2 ^ k"
    by (simp add: powr_add pe)
  have m: "max e (- 126) - (int 24 - 1) = - int (23 - k)"
    using assms(3) by (simp add: e_def)
  have pq: "2 powr real_of_int (- int (23 - k)) = 1 / 2 ^ (23 - k)"
    by (simp add: powr_minus powr_realpow divide_inverse del: of_nat_diff)
  have "round_to 24 (- 126) x = of_int n * 2 powr of_int (max e (- 126) - (int 24 - 1))"
  proof (rule round_to_near)
    show "2 powr real_of_int e \<le> \<bar>x\<bar>" using assms(1) by (simp only: pe)
    show "\<bar>x\<bar> < 2 powr (real_of_int e + 1)" using assms(2) by (simp only: pe1)
    show "\<bar>x / 2 powr real_of_int (max e (- 126) - (int 24 - 1)) - real_of_int n\<bar> < 1 / 2"
      using assms(4) by (simp only: m pq) simp
  qed
  then have r: "round_to 24 (- 126) x = of_int n / 2 ^ (23 - k)"
    by (simp only: m pq) simp
  have "(2::real) ^ k \<le> 2 ^ 23" using assms(3) by (intro power_increasing) simp_all
  with assms(2) have "\<bar>x\<bar> \<le> 2 ^ 24" by simp
  also have "(2::real) ^ 24 = 2 powr of_int 24" by (simp add: powr_realpow[symmetric])
  finally have "to_float32 x = Fin (round_to 24 (- 126) x)" by (rule to_float32_Fin) simp_all
  with r show ?thesis by simp
qed

lemma to_float64_exact:
  assumes "\<bar>n\<bar> < 2 ^ 53" and "k \<le> 1000"
  shows "to_float64 (of_int n / 2 ^ k) = Fin (of_int n / 2 ^ k)"
proof -
  have pq: "2 powr real_of_int (- int k) = 1 / 2 ^ k"
    by (simp add: powr_minus powr_realpow divide_inverse)
  have "round_to 53 (- 1022) (of_int n * 2 powr of_int (- int k)) = of_int n * 2 powr of_int (- int k)"
    using assms by (intro round_to_exact) simp_all
  then have r: "round_to 53 (- 1022) (of_int n / 2 ^ k) = of_int n / 2 ^ k"
    by (simp only: pq) simp
  have "\<bar>real_of_int n\<bar> < 2 ^ 53"
    using assms(1) by (metis of_int_abs of_int_less_iff of_int_numeral of_int_power)
  moreover have "\<bar>real_of_int n / 2 ^ k\<bar> \<le> \<bar>real_of_int n\<bar>"
    by (simp add: abs_divide field_simps mult_le_cancel_left1)
  ultimately have "\<bar>real_of_int n / 2 ^ k\<bar> \<le> 2 ^ 53" by linarith
  also have "(2::real) ^ 53 = 2 powr of_int 53" by (simp add: powr_realpow[symmetric])
  finally have "to_float64 (of_int n / 2 ^ k) = Fin (round_to 53 (- 1022) (of_int n / 2 ^ k))"
    by (rule to_float64_Fin) simp_all
  with r show ?thesis by simp
qed

subsection \<open>The containment of the returned points\<close>




subsection \<open>The sampler on draws of the library generator\<close>






lemma seed_1959_1_candidate: "candidate_at draws_1959 11066 = (- (3670335317294457 / 2 ^ 52), - (408313777068413 / 2 ^ 51), 1239371442267387 / 2 ^ 51)"
  by (simp add: candidate_at_def draws_1959_def)

lemma seed_1959_1_vector: "Vector (candidate_at draws_1959 11066) = (Fin (- (13673065 / 2 ^ 24)), Fin (- (12168699 / 2 ^ 26)), Fin (9234037 / 2 ^ 24))"
proof -
  have f1: "to_float32 (- (3670335317294457 / 2 ^ 52)) = Fin (- (13673065 / 2 ^ 24))"
    using to_float32_near_neg[of 1 "- (3670335317294457 / 2 ^ 52)" "- 13673065"] by simp
  have f2: "to_float32 (- (408313777068413 / 2 ^ 51)) = Fin (- (12168699 / 2 ^ 26))"
    using to_float32_near_neg[of 3 "- (408313777068413 / 2 ^ 51)" "- 12168699"] by simp
  have f3: "to_float32 (1239371442267387 / 2 ^ 51) = Fin (9234037 / 2 ^ 24)"
    using to_float32_near_neg[of 1 "1239371442267387 / 2 ^ 51" "9234037"] by simp
  show ?thesis by (simp only: seed_1959_1_candidate Vector.simps f1 f2 f3)
qed

lemma seed_1959_1_length: "Vector_length (Vector (candidate_at draws_1959 11066)) = f64_sqrt (Fin (268435459 / 2 ^ 28))"
proof -
  have s1: "to_float32 ((- (13673065 / 2 ^ 24)) * (- (13673065 / 2 ^ 24))) = Fin (5571625 / 2 ^ 23)"
    using to_float32_near_neg[of 1 "(- (13673065 / 2 ^ 24)) * (- (13673065 / 2 ^ 24))" "11143250"] by simp
  have s2: "to_float32 ((- (12168699 / 2 ^ 26)) * (- (12168699 / 2 ^ 26))) = Fin (8826091 / 2 ^ 28)"
    using to_float32_near_neg[of 5 "(- (12168699 / 2 ^ 26)) * (- (12168699 / 2 ^ 26))" "8826091"] by simp
  have s3: "to_float32 ((9234037 / 2 ^ 24) * (9234037 / 2 ^ 24)) = Fin (10164671 / 2 ^ 25)"
    using to_float32_near_neg[of 2 "(9234037 / 2 ^ 24) * (9234037 / 2 ^ 24)" "10164671"] by simp
  have a1: "to_float64 (0 + (10164671 / 2 ^ 25)) = Fin (10164671 / 2 ^ 25)"
    using to_float64_exact[of "10164671" 25] by simp
  have a2: "to_float64 ((10164671 / 2 ^ 25) + (8826091 / 2 ^ 28)) = Fin (90143459 / 2 ^ 28)"
    using to_float64_exact[of "90143459" 28] by simp
  have a3: "to_float64 ((90143459 / 2 ^ 28) + (5571625 / 2 ^ 23)) = Fin (268435459 / 2 ^ 28)"
    using to_float64_exact[of "268435459" 28] by simp
  show ?thesis
    by (simp only: seed_1959_1_vector Vector_length.simps f32_mul.simps f64_add.simps s1 s2 s3 a1 a2 a3)
qed

lemma seed_1959_1_rejected: "\<not> accepted draws_1959 11066"
  unfolding accepted_def seed_1959_1_length by (rule f64_sqrt_gt_1) simp_all

lemma seed_1959_2_candidate: "candidate_at draws_1959 11069 = (- (1310648207395625 / 2 ^ 51), 2209147078735435 / 2 ^ 52, 3601500849808819 / 2 ^ 52)"
  by (simp add: candidate_at_def draws_1959_def)

lemma seed_1959_2_vector: "Vector (candidate_at draws_1959 11069) = (Fin (- (4882545 / 2 ^ 23)), Fin (4114857 / 2 ^ 23), Fin (3354159 / 2 ^ 22))"
proof -
  have f1: "to_float32 (- (1310648207395625 / 2 ^ 51)) = Fin (- (4882545 / 2 ^ 23))"
    using to_float32_near_neg[of 1 "- (1310648207395625 / 2 ^ 51)" "- 9765090"] by simp
  have f2: "to_float32 (2209147078735435 / 2 ^ 52) = Fin (4114857 / 2 ^ 23)"
    using to_float32_near_neg[of 2 "2209147078735435 / 2 ^ 52" "16459428"] by simp
  have f3: "to_float32 (3601500849808819 / 2 ^ 52) = Fin (3354159 / 2 ^ 22)"
    using to_float32_near_neg[of 1 "3601500849808819 / 2 ^ 52" "13416636"] by simp
  show ?thesis by (simp only: seed_1959_2_candidate Vector.simps f1 f2 f3)
qed

lemma seed_1959_2_length: "Vector_length (Vector (candidate_at draws_1959 11069)) = f64_sqrt (Fin (81799339 / 2 ^ 26))"
proof -
  have s1: "to_float32 ((- (4882545 / 2 ^ 23)) * (- (4882545 / 2 ^ 23))) = Fin (5683719 / 2 ^ 24)"
    using to_float32_near_neg[of 2 "(- (4882545 / 2 ^ 23)) * (- (4882545 / 2 ^ 23))" "11367438"] by simp
  have s2: "to_float32 ((4114857 / 2 ^ 23) * (4114857 / 2 ^ 23)) = Fin (16147659 / 2 ^ 26)"
    using to_float32_near_neg[of 3 "(4114857 / 2 ^ 23) * (4114857 / 2 ^ 23)" "16147659"] by simp
  have s3: "to_float32 ((3354159 / 2 ^ 22) * (3354159 / 2 ^ 22)) = Fin (10729201 / 2 ^ 24)"
    using to_float32_near_neg[of 1 "(3354159 / 2 ^ 22) * (3354159 / 2 ^ 22)" "10729201"] by simp
  have a1: "to_float64 (0 + (10729201 / 2 ^ 24)) = Fin (10729201 / 2 ^ 24)"
    using to_float64_exact[of "10729201" 24] by simp
  have a2: "to_float64 ((10729201 / 2 ^ 24) + (16147659 / 2 ^ 26)) = Fin (59064463 / 2 ^ 26)"
    using to_float64_exact[of "59064463" 26] by simp
  have a3: "to_float64 ((59064463 / 2 ^ 26) + (5683719 / 2 ^ 24)) = Fin (81799339 / 2 ^ 26)"
    using to_float64_exact[of "81799339" 26] by simp
  show ?thesis
    by (simp only: seed_1959_2_vector Vector_length.simps f32_mul.simps f64_add.simps s1 s2 s3 a1 a2 a3)
qed

lemma seed_1959_2_rejected: "\<not> accepted draws_1959 11069"
  unfolding accepted_def seed_1959_2_length by (rule f64_sqrt_gt_1) simp_all

lemma seed_1959_3_candidate: "candidate_at draws_1959 11072 = (192032093735301 / 2 ^ 51, - (46301809407851 / 2 ^ 50), - (1227349625687329 / 2 ^ 51))"
  by (simp add: candidate_at_def draws_1959_def)

lemma seed_1959_3_vector: "Vector (candidate_at draws_1959 11072) = (Fin (11446005 / 2 ^ 27), Fin (- (2759803 / 2 ^ 26)), Fin (- (9144467 / 2 ^ 24)))"
proof -
  have f1: "to_float32 (192032093735301 / 2 ^ 51) = Fin (11446005 / 2 ^ 27)"
    using to_float32_near_neg[of 4 "192032093735301 / 2 ^ 51" "11446005"] by simp
  have f2: "to_float32 (- (46301809407851 / 2 ^ 50)) = Fin (- (2759803 / 2 ^ 26))"
    using to_float32_near_neg[of 5 "- (46301809407851 / 2 ^ 50)" "- 11039212"] by simp
  have f3: "to_float32 (- (1227349625687329 / 2 ^ 51)) = Fin (- (9144467 / 2 ^ 24))"
    using to_float32_near_neg[of 1 "- (1227349625687329 / 2 ^ 51)" "- 9144467"] by simp
  show ?thesis by (simp only: seed_1959_3_candidate Vector.simps f1 f2 f3)
qed

lemma seed_1959_3_length: "Vector_length (Vector (candidate_at draws_1959 11072)) = f64_sqrt (Fin (2628917121 / 2 ^ 33))"
proof -
  have s1: "to_float32 ((11446005 / 2 ^ 27) * (11446005 / 2 ^ 27)) = Fin (3904433 / 2 ^ 29)"
    using to_float32_near_neg[of 8 "(11446005 / 2 ^ 27) * (11446005 / 2 ^ 27)" "15617732"] by simp
  have s2: "to_float32 ((- (2759803 / 2 ^ 26)) * (- (2759803 / 2 ^ 26))) = Fin (14527345 / 2 ^ 33)"
    using to_float32_near_neg[of 10 "(- (2759803 / 2 ^ 26)) * (- (2759803 / 2 ^ 26))" "14527345"] by simp
  have s3: "to_float32 ((- (9144467 / 2 ^ 24)) * (- (9144467 / 2 ^ 24))) = Fin (9968433 / 2 ^ 25)"
    using to_float32_near_neg[of 2 "(- (9144467 / 2 ^ 24)) * (- (9144467 / 2 ^ 24))" "9968433"] by simp
  have a1: "to_float64 (0 + (9968433 / 2 ^ 25)) = Fin (9968433 / 2 ^ 25)"
    using to_float64_exact[of "9968433" 25] by simp
  have a2: "to_float64 ((9968433 / 2 ^ 25) + (14527345 / 2 ^ 33)) = Fin (2566446193 / 2 ^ 33)"
    using to_float64_exact[of "2566446193" 33] by simp
  have a3: "to_float64 ((2566446193 / 2 ^ 33) + (3904433 / 2 ^ 29)) = Fin (2628917121 / 2 ^ 33)"
    using to_float64_exact[of "2628917121" 33] by simp
  show ?thesis
    by (simp only: seed_1959_3_vector Vector_length.simps f32_mul.simps f64_add.simps s1 s2 s3 a1 a2 a3)
qed

lemma seed_1959_3_accepted: "accepted draws_1959 11072"
  unfolding accepted_def seed_1959_3_length by (rule f64_sqrt_le_1) simp_all

lemma seed_1959_3_scaled: "Vector_mul (Vector (candidate_at draws_1959 11072)) 10 = (Fin (7153753 / 2 ^ 23), Fin (- (13799015 / 2 ^ 25)), Fin (- (1428823 / 2 ^ 18)))"
proof -
  have r: "to_float32 10 = Fin 10"
    using to_float32_dyadic[of 10] by simp
  have m1: "to_float32 ((11446005 / 2 ^ 27) * 10) = Fin (7153753 / 2 ^ 23)"
    using to_float32_near_neg[of 1 "(11446005 / 2 ^ 27) * 10" "14307506"] by simp
  have m2: "to_float32 ((- (2759803 / 2 ^ 26)) * 10) = Fin (- (13799015 / 2 ^ 25))"
    using to_float32_near_neg[of 2 "(- (2759803 / 2 ^ 26)) * 10" "- 13799015"] by simp
  have m3: "to_float32 ((- (9144467 / 2 ^ 24)) * 10) = Fin (- (1428823 / 2 ^ 18))"
    using to_float32_near_pos[of 2 "(- (9144467 / 2 ^ 24)) * 10" "- 11430584"] by simp
  show ?thesis
    by (simp only: seed_1959_3_vector Vector_mul.simps Let_def r f32_mul.simps m1 m2 m3)
qed


lemma norm3_le: "0 \<le> r \<Longrightarrow> x * x + y * y + z * z \<le> r * r \<Longrightarrow> norm3 (x, y, z) \<le> r"
proof -
  assume r: "0 \<le> r" and "x * x + y * y + z * z \<le> r * r"
  then have "x * x + y * y + z * z \<le> r\<^sup>2" by (simp add: power2_eq_square)
  then show ?thesis unfolding norm3_def using r by (simp add: real_le_lsqrt)
qed

lemma norm3_lt: "0 < r \<Longrightarrow> x * x + y * y + z * z < r * r \<Longrightarrow> norm3 (x, y, z) < r"
proof -
  assume r: "0 < r" and "x * x + y * y + z * z < r * r"
  then have "x * x + y * y + z * z < r\<^sup>2" by (simp add: power2_eq_square)
  then show ?thesis unfolding norm3_def using r by (simp add: real_less_lsqrt)
qed

subsection \<open>The length test and the exact length\<close>

lemma component_le_1:
  fixes x :: real
  assumes "x * x + y * y + z * z \<le> 1"
  shows "\<bar>x\<bar> \<le> 1"
proof -
  have "0 \<le> y * y" "0 \<le> z * z" by simp_all
  with assms have "x * x \<le> 1" by linarith
  then have "\<bar>x\<bar>\<^sup>2 \<le> 1\<^sup>2" by (simp add: power2_eq_square)
  then show ?thesis by (rule power2_le_imp_le) simp
qed

lemma f32_up:
  assumes "0 \<le> t" and "t \<le> B"
  shows "round_to 24 (- 126) t \<le> t + B / 2 ^ 24 + 1 / 2 ^ 150"
proof -
  have "t / 2 ^ 24 \<le> B / 2 ^ 24" using assms(2) by (intro divide_right_mono) simp_all
  with f32_err[of t] assms(1) show ?thesis by (simp add: abs_le_iff)
qed

lemma f64_up:
  assumes "0 \<le> t" and "t \<le> B"
  shows "round_to 53 (- 1022) t \<le> t + B / 2 ^ 53 + 1 / 2 ^ 150"
proof -
  have "t / 2 ^ 53 \<le> B / 2 ^ 53" using assms(2) by (intro divide_right_mono) simp_all
  with f64_err[of t] assms(1) show ?thesis by (simp add: abs_le_iff)
qed

lemma f32_unit:
  assumes "\<bar>c\<bar> \<le> 1"
  obtains x where "to_float32 c = Fin x" and "\<bar>x\<bar> \<le> 1"
    and "x * x \<le> c * c + 2 * (1 / 2 ^ 24 + 1 / 2 ^ 150) + 1 / 2 ^ 46"
proof -
  let ?e = "1 / 2 ^ 24 + 1 / 2 ^ 150 :: real"
  define x where "x = round_to 24 (- 126) c"
  have b: "\<bar>c\<bar> \<le> 2 powr of_int 0" using assms by simp
  then have X: "to_float32 c = Fin x" unfolding x_def by (rule to_float32_Fin) simp_all
  have "\<bar>x\<bar> \<le> 2 powr of_int 0" unfolding x_def using b by (rule f32_pow2_bound) simp
  then have x1: "\<bar>x\<bar> \<le> 1" by simp
  have "\<bar>c\<bar> / 2 ^ 24 \<le> 1 / 2 ^ 24" using assms by (intro divide_right_mono) simp_all
  with f32_err[of c] have "\<bar>x - c\<bar> \<le> ?e" unfolding x_def by linarith
  then have xe: "\<bar>x\<bar> \<le> \<bar>c\<bar> + ?e" by linarith
  have "x * x = \<bar>x\<bar> * \<bar>x\<bar>" by simp
  also have "\<dots> \<le> (\<bar>c\<bar> + ?e) * (\<bar>c\<bar> + ?e)"
    using xe by (intro mult_mono) simp_all
  also have "\<dots> = c * c + 2 * (?e * \<bar>c\<bar>) + ?e * ?e"
    by (simp add: algebra_simps)
  also have "?e * \<bar>c\<bar> \<le> ?e * 1" using assms by (intro mult_left_mono) simp_all
  also have "?e * ?e \<le> 1 / 2 ^ 46" by simp
  finally have "x * x \<le> c * c + 2 * ?e + 1 / 2 ^ 46" by simp
  with X x1 that show ?thesis by blast
qed

lemma f32_square_unit:
  assumes "\<bar>x\<bar> \<le> 1"
  obtains s where "f32_mul (Fin x) (Fin x) = Fin s" and "0 \<le> s" and "s \<le> 1"
    and "s \<le> x * x + x * x / 2 ^ 24 + 1 / 2 ^ 150"
proof -
  define s where "s = round_to 24 (- 126) (x * x)"
  have "\<bar>x\<bar> * \<bar>x\<bar> \<le> 1 * 1" using assms by (intro mult_mono) simp_all
  then have q1: "x * x \<le> 1" by simp
  then have b: "\<bar>x * x\<bar> \<le> 2 powr of_int 0" by simp
  then have S: "to_float32 (x * x) = Fin s" unfolding s_def by (rule to_float32_Fin) simp_all
  have "\<bar>s\<bar> \<le> 2 powr of_int 0" unfolding s_def using b by (rule f32_pow2_bound) simp
  then have s1: "s \<le> 1" by simp
  have s0: "0 \<le> s" unfolding s_def by (rule round_to_nonneg) simp
  have "s \<le> x * x + x * x / 2 ^ 24 + 1 / 2 ^ 150"
    using f32_err[of "x * x"] unfolding s_def by (simp add: abs_le_iff)
  with S s0 s1 that show ?thesis by simp
qed

lemma f64_add_small:
  assumes "0 \<le> a" and "0 \<le> b" and "a + b \<le> 4"
  obtains d where "f64_add (Fin a) (Fin b) = Fin d" and "0 \<le> d"
    and "d \<le> a + b + 4 / 2 ^ 53 + 1 / 2 ^ 150"
proof -
  define d where "d = round_to 53 (- 1022) (a + b)"
  have "\<bar>a + b\<bar> \<le> 2 powr of_int 2" using assms by (simp add: powr_numeral)
  then have D: "to_float64 (a + b) = Fin d" unfolding d_def by (rule to_float64_Fin) simp_all
  have d0: "0 \<le> d" unfolding d_def using assms by (intro round_to_nonneg) simp
  have "d \<le> a + b + 4 / 2 ^ 53 + 1 / 2 ^ 150"
    unfolding d_def using assms by (intro f64_up) simp_all
  with D d0 that show ?thesis by simp
qed

lemma length_test_accepts:
  assumes S: "c1 * c1 + c2 * c2 + c3 * c3 \<le> 1 - 1 / 2 ^ 21"
  shows "float_le (Vector_length (Vector (c1, c2, c3))) (Fin 1)"
proof -
  let ?c0 = "1 / 2 ^ 150 :: real"
  let ?e = "1 / 2 ^ 24 + 1 / 2 ^ 150 :: real"
  from S have S1: "c1 * c1 + c2 * c2 + c3 * c3 \<le> 1"
    by (rule order_trans) simp
  have b: "\<bar>c1\<bar> \<le> 1" "\<bar>c2\<bar> \<le> 1" "\<bar>c3\<bar> \<le> 1"
    using S1 component_le_1[of c1 c2 c3] component_le_1[of c2 c1 c3] component_le_1[of c3 c1 c2]
    by (simp_all add: algebra_simps)
  from f32_unit[OF b(1)] obtain x where
    x: "to_float32 c1 = Fin x" "\<bar>x\<bar> \<le> 1" "x * x \<le> c1 * c1 + 2 * ?e + 1 / 2 ^ 46"
    by blast
  from f32_unit[OF b(2)] obtain y where
    y: "to_float32 c2 = Fin y" "\<bar>y\<bar> \<le> 1" "y * y \<le> c2 * c2 + 2 * ?e + 1 / 2 ^ 46"
    by blast
  from f32_unit[OF b(3)] obtain z where
    z: "to_float32 c3 = Fin z" "\<bar>z\<bar> \<le> 1" "z * z \<le> c3 * c3 + 2 * ?e + 1 / 2 ^ 46"
    by blast
  from x(3) y(3) z(3) S have "x * x + y * y + z * z \<le> 1 - 1 / 2 ^ 21 + 6 * ?e + 3 / 2 ^ 46"
    by linarith
  also have "\<dots> \<le> 1 - 1 / 2 ^ 24" by simp
  finally have SX: "x * x + y * y + z * z \<le> 1 - 1 / 2 ^ 24" .
  from f32_square_unit[OF x(2)] obtain sx where
    sx: "f32_mul (Fin x) (Fin x) = Fin sx" "0 \<le> sx" "sx \<le> 1"
      "sx \<le> x * x + x * x / 2 ^ 24 + ?c0"
    by blast
  from f32_square_unit[OF y(2)] obtain sy where
    sy: "f32_mul (Fin y) (Fin y) = Fin sy" "0 \<le> sy" "sy \<le> 1"
      "sy \<le> y * y + y * y / 2 ^ 24 + ?c0"
    by blast
  from f32_square_unit[OF z(2)] obtain sz where
    sz: "f32_mul (Fin z) (Fin z) = Fin sz" "0 \<le> sz" "sz \<le> 1"
      "sz \<le> z * z + z * z / 2 ^ 24 + ?c0"
    by blast
  define Q where "Q = x * x + y * y + z * z"
  have "Q / 2 ^ 24 = x * x / 2 ^ 24 + y * y / 2 ^ 24 + z * z / 2 ^ 24"
    by (simp add: Q_def add_divide_distrib)
  with sx(4) sy(4) sz(4) have "sx + sy + sz \<le> Q + Q / 2 ^ 24 + 3 * ?c0"
    unfolding Q_def by linarith
  moreover have "Q \<le> 1 - 1 / 2 ^ 24" using SX by (simp add: Q_def)
  moreover from this have "Q / 2 ^ 24 \<le> (1 - 1 / 2 ^ 24) / 2 ^ 24"
    by (intro divide_right_mono) simp_all
  ultimately have SS: "sx + sy + sz \<le> (1 - 1 / 2 ^ 24) + (1 - 1 / 2 ^ 24) / 2 ^ 24 + 3 * ?c0"
    by linarith
  from f64_add_small[of 0 sz] sz obtain d1 where
    d1: "f64_add (Fin 0) (Fin sz) = Fin d1" "0 \<le> d1" "d1 \<le> 0 + sz + 4 / 2 ^ 53 + ?c0"
    by auto
  have "d1 + sy \<le> 4" using d1(3) sz(3) sy(3) by simp
  from f64_add_small[OF d1(2) sy(2) this] obtain d2 where
    d2: "f64_add (Fin d1) (Fin sy) = Fin d2" "0 \<le> d2" "d2 \<le> d1 + sy + 4 / 2 ^ 53 + ?c0"
    by blast
  have "d2 + sx \<le> 4" using d2(3) d1(3) sz(3) sy(3) sx(3) by simp
  from f64_add_small[OF d2(2) sx(2) this] obtain d3 where
    d3: "f64_add (Fin d2) (Fin sx) = Fin d3" "0 \<le> d3" "d3 \<le> d2 + sx + 4 / 2 ^ 53 + ?c0"
    by blast
  have "d3 \<le> sx + sy + sz + 12 / 2 ^ 53 + 3 * ?c0" using d1(3) d2(3) d3(3) by simp
  also have "\<dots> \<le> (1 - 1 / 2 ^ 24) + (1 - 1 / 2 ^ 24) / 2 ^ 24 + 3 * ?c0 + 12 / 2 ^ 53 + 3 * ?c0"
    using SS by simp
  also have "\<dots> \<le> 1" by simp
  finally have "d3 \<le> 1" .
  with d3(2) have "float_le (f64_sqrt (Fin d3)) (Fin 1)" by (rule f64_sqrt_le_1)
  moreover have "Vector_length (Vector (c1, c2, c3)) = f64_sqrt (Fin d3)"
    by (simp only: Vector.simps Vector_length.simps x(1) y(1) z(1) sx(1) sy(1) sz(1) d1(1) d2(1) d3(1))
  ultimately show ?thesis by simp
qed

lemma norm3_nonneg: "0 \<le> norm3 v"
  by (cases v) (simp add: norm3_def)

lemma norm3_square: "norm3 (x, y, z) * norm3 (x, y, z) = x * x + y * y + z * z"
proof -
  have "0 \<le> x * x + y * y + z * z" by simp
  then show ?thesis unfolding norm3_def by simp
qed

lemma norm_accepted:
  assumes "norm3 (candidate_at d n) \<le> 1 - 1 / 2 ^ 21"
  shows "accepted d n"
proof -
  obtain c1 c2 c3 where c: "candidate_at d n = (c1, c2, c3)" by (cases "candidate_at d n")
  let ?N = "norm3 (c1, c2, c3)"
  have N0: "0 \<le> ?N" by (rule norm3_nonneg)
  have "c1 * c1 + c2 * c2 + c3 * c3 = ?N * ?N" by (simp only: norm3_square)
  also have "\<dots> \<le> (1 - 1 / 2 ^ 21) * (1 - 1 / 2 ^ 21)"
    using assms N0 unfolding c by (intro mult_mono) simp_all
  also have "\<dots> \<le> 1 - 1 / 2 ^ 21" by simp
  finally show ?thesis unfolding accepted_def c by (rule length_test_accepts)
qed

lemma accepted_norm:
  assumes "accepted d n"
  shows "norm3 (candidate_at d n) \<le> 1 + 1 / 2 ^ 21"
proof -
  let ?c0 = "1 / 2 ^ 150 :: real"
  let ?al = "1 + 2 / 2 ^ 24 :: real"
  obtain c1 c2 c3 where c: "candidate_at d n = (c1, c2, c3)" by (cases "candidate_at d n")
  from assms have "float_le (Vector_length (to_float32 c1, to_float32 c2, to_float32 c3)) (Fin 1)"
    unfolding accepted_def c by simp
  then obtain x y z where xyz: "to_float32 c1 = Fin x" "to_float32 c2 = Fin y" "to_float32 c3 = Fin z"
    and sq: "x * x + y * y + z * z \<le> 1 + 1 / 2 ^ 22"
    by (rule accepted_squares)
  have rx: "x = round_to 24 (- 126) c1" and ry: "y = round_to 24 (- 126) c2"
    and rz: "z = round_to 24 (- 126) c3"
    using xyz by (simp_all add: to_float32_def to_fl_Fin)
  have up: "\<bar>c\<bar> \<le> ?al * (\<bar>round_to 24 (- 126) c\<bar> + ?c0)" for c :: real
  proof -
    have "\<bar>\<bar>round_to 24 (- 126) c\<bar> - \<bar>c\<bar>\<bar> \<le> \<bar>\<bar>c\<bar>\<bar> / 2 ^ 24 + ?c0"
      using f32_err[of c] by linarith
    then have "\<bar>c\<bar> \<le> (\<bar>round_to 24 (- 126) c\<bar> + ?c0) * (1 + 2 / 2 ^ 24)"
      by (rule err_upper) simp_all
    then show ?thesis by (simp add: mult.commute)
  qed
  have N: "norm3 (x, y, z) \<le> 1 + 1 / 2 ^ 23"
  proof -
    have "norm3 (x, y, z) \<le> sqrt (1 + 1 / 2 ^ 22)"
      unfolding norm3_def using sq by simp
    also have "\<dots> \<le> 1 + (1 / 2 ^ 22) / 2" by (rule sqrt_one_plus) simp
    finally show ?thesis by simp
  qed
  have "norm3 (c1, c2, c3) \<le> norm3 (?al * (\<bar>x\<bar> + ?c0), ?al * (\<bar>y\<bar> + ?c0), ?al * (\<bar>z\<bar> + ?c0))"
    unfolding rx ry rz by (intro norm3_mono up)
  also have "\<dots> = ?al * norm3 (\<bar>x\<bar> + ?c0, \<bar>y\<bar> + ?c0, \<bar>z\<bar> + ?c0)"
    by (rule norm3_scale) simp
  also have "norm3 (\<bar>x\<bar> + ?c0, \<bar>y\<bar> + ?c0, \<bar>z\<bar> + ?c0) \<le> norm3 (\<bar>x\<bar>, \<bar>y\<bar>, \<bar>z\<bar>) + norm3 (?c0, ?c0, ?c0)"
    by (rule norm3_triangle)
  also have "norm3 (\<bar>x\<bar>, \<bar>y\<bar>, \<bar>z\<bar>) = norm3 (x, y, z)" by (simp add: norm3_def)
  also have "norm3 (?c0, ?c0, ?c0) \<le> 2 * ?c0" by (rule norm3_const) simp
  finally have "norm3 (c1, c2, c3) \<le> ?al * (norm3 (x, y, z) + 2 * ?c0)" by simp
  also have "\<dots> \<le> ?al * (1 + 1 / 2 ^ 23 + 2 * ?c0)"
    using N by (intro mult_left_mono) simp_all
  also have "\<dots> \<le> 1 + 1 / 2 ^ 21" by simp
  finally show ?thesis unfolding c .
qed

section \<open>The claims\<close>

text \<open>
  Claim C1. For every configuration with \<open>star_count \<ge> 0\<close>, a run of
  \<open>generate_starfield\<close> that returns has created exactly \<open>star_count\<close> stars, one per
  iteration of its loop. The run does return whenever the stream that follows the seed is
  recurrent. The instance takes the counts 0, 1 and 50000.
\<close>

theorem generate_starfield_count:
  assumes "0 \<le> star_count s"
  shows "(recurrent (gen (random_seed s)) \<longrightarrow> generate_starfield gen s w \<noteq> None) \<and>
         (\<forall>w'. generate_starfield gen s w = Some w' \<longrightarrow>
               int (length (created w w')) = star_count s)"
proof (intro conjI impI allI)
  assume "recurrent (gen (random_seed s))"
  then have "recurrent (draws (seed gen (random_seed s)))" by (simp add: seed_def)
  then show "generate_starfield gen s w \<noteq> None"
    unfolding generate_starfield_None by (rule stars_of_total)
next
  fix w'
  assume "generate_starfield gen s w = Some w'"
  then obtain obs g where
    st: "stars_of s STAR_MESH_NAME [0..<nat (star_count s)] (seed gen (random_seed s)) = Some (obs, g)"
    and cr: "created w w' = obs"
    by (rule generate_starfield_Some)
  from stars_of_length[OF st] cr assms show "int (length (created w w')) = star_count s"
    by simp
qed

theorem generate_starfield_count_witness:
  "(\<exists>w'. generate_starfield example_gen (example_settings\<lparr>star_count := 0\<rparr>) example_world = Some w'
         \<and> length (created example_world w') = 0) \<and>
   (\<exists>w'. generate_starfield example_gen (example_settings\<lparr>star_count := 1\<rparr>) example_world = Some w'
         \<and> length (created example_world w') = 1) \<and>
   (\<exists>w'. generate_starfield example_gen (example_settings\<lparr>star_count := 50000\<rparr>) example_world = Some w'
         \<and> length (created example_world w') = 50000)"
proof -
  have run: "\<exists>w'. generate_starfield example_gen (example_settings\<lparr>star_count := n\<rparr>) example_world
               = Some w' \<and> int (length (created example_world w')) = n"
    if "0 \<le> n" for n
  proof -
    have "0 \<le> star_count (example_settings\<lparr>star_count := n\<rparr>)" using that by simp
    from generate_starfield_count[OF this, of example_gen example_world] example_gen_recurrent
    show ?thesis by auto
  qed
  from run[of 0] run[of 1] run[of 50000] show ?thesis by simp
qed

text \<open>
  Claim C2. Two runs of \<open>generate_starfield\<close> whose settings agree on the seed, the count,
  the radius and the size range create the same sequence of locations and the same sequence
  of scales, in the same order, whatever the scene and the state of the generator were
  before each run (the generator is reseeded first); and one run returns exactly when the
  other does.
\<close>

theorem generate_starfield_deterministic:
  assumes "random_seed s1 = random_seed s2" and "star_count s1 = star_count s2"
    and "field_radius s1 = field_radius s2" and "star_size_min s1 = star_size_min s2"
    and "star_size_max s1 = star_size_max s2"
  shows "(generate_starfield gen s1 w1 = None \<longleftrightarrow> generate_starfield gen s2 w2 = None) \<and>
         (\<forall>w1' w2'. generate_starfield gen s1 w1 = Some w1' \<longrightarrow>
                    generate_starfield gen s2 w2 = Some w2' \<longrightarrow>
                    map location (created w1 w1') = map location (created w2 w2') \<and>
                    map scale (created w1 w1') = map scale (created w2 w2'))"
proof -
  have eq: "stars_of s1 STAR_MESH_NAME [0..<nat (star_count s1)] (seed gen (random_seed s1)) =
            stars_of s2 STAR_MESH_NAME [0..<nat (star_count s2)] (seed gen (random_seed s2))"
    using assms by (simp add: stars_of_cong[of s1 s2])
  have "created w1 w1' = created w2 w2'"
    if r1: "generate_starfield gen s1 w1 = Some w1'" and r2: "generate_starfield gen s2 w2 = Some w2'"
    for w1' w2'
  proof -
    from r1 obtain obs1 g1 where
      "stars_of s1 STAR_MESH_NAME [0..<nat (star_count s1)] (seed gen (random_seed s1)) = Some (obs1, g1)"
      "created w1 w1' = obs1"
      by (rule generate_starfield_Some)
    moreover from r2 obtain obs2 g2 where
      "stars_of s2 STAR_MESH_NAME [0..<nat (star_count s2)] (seed gen (random_seed s2)) = Some (obs2, g2)"
      "created w2 w2' = obs2"
      by (rule generate_starfield_Some)
    ultimately show ?thesis using eq by simp
  qed
  then show ?thesis by (simp add: generate_starfield_None eq)
qed

theorem generate_starfield_deterministic_witness:
  "\<exists>w1' w2'.
     generate_starfield example_gen example_settings example_world = Some w1' \<and>
     generate_starfield example_gen (example_settings\<lparr>clear_existing := False\<rparr>)
       (example_world\<lparr>rng := \<lparr>draws = (\<lambda>i. 1 / 3), pos = 0\<rparr>, objects := []\<rparr>) = Some w2' \<and>
     map location (created example_world w1') = [(Fin (- 5), Fin 0, Fin 5), (Fin (5 / 2), Fin (- 5), Fin 0)] \<and>
     map location (created (example_world\<lparr>rng := \<lparr>draws = (\<lambda>i. 1 / 3), pos = 0\<rparr>, objects := []\<rparr>) w2')
       = [(Fin (- 5), Fin 0, Fin 5), (Fin (5 / 2), Fin (- 5), Fin 0)] \<and>
     map scale (created example_world w1') =
     map scale (created (example_world\<lparr>rng := \<lparr>draws = (\<lambda>i. 1 / 3), pos = 0\<rparr>, objects := []\<rparr>) w2')"
proof -
  let ?s2 = "example_settings\<lparr>clear_existing := False\<rparr>"
  let ?w2 = "example_world\<lparr>rng := \<lparr>draws = (\<lambda>i. 1 / 3), pos = 0\<rparr>, objects := []\<rparr>"
  have d: "(generate_starfield example_gen example_settings example_world = None \<longleftrightarrow>
            generate_starfield example_gen ?s2 ?w2 = None) \<and>
         (\<forall>w1' w2'. generate_starfield example_gen example_settings example_world = Some w1' \<longrightarrow>
                    generate_starfield example_gen ?s2 ?w2 = Some w2' \<longrightarrow>
                    map location (created example_world w1') = map location (created ?w2 w2') \<and>
                    map scale (created example_world w1') = map scale (created ?w2 w2'))"
    by (rule generate_starfield_deterministic) simp_all
  from example_run obtain w1' where
    r1: "generate_starfield example_gen example_settings example_world = Some w1'"
    and c1: "created example_world w1' =
      [\<lparr>ob_name = ''Star_00000'', ob_data = ''Starfield_StarMesh'', location = (Fin (- 5), Fin 0, Fin 5),
           scale = (7 / 4, 7 / 4, 7 / 4)\<rparr>,
         \<lparr>ob_name = ''Star_00001'', ob_data = ''Starfield_StarMesh'', location = (Fin (5 / 2), Fin (- 5), Fin 0),
           scale = (5 / 2, 5 / 2, 5 / 2)\<rparr>]"
    by auto
  from r1 d obtain w2' where r2: "generate_starfield example_gen ?s2 ?w2 = Some w2'"
    by (cases "generate_starfield example_gen ?s2 ?w2") auto
  from d r1 r2 have "map location (created example_world w1') = map location (created ?w2 w2')"
    and "map scale (created example_world w1') = map scale (created ?w2 w2')"
    by blast+
  with r1 r2 c1 show ?thesis by (intro exI[of _ w1'] exI[of _ w2']) simp
qed




text \<open>
  Claim C4, as the specification words it: \<open>random_point_in_sphere\<close> returns the first
  candidate whose Euclidean length is \<open>\<le> 1\<close>, multiplied by the radius. This fails on
  the library generator's own draws. After \<^verbatim>\<open>random.seed(1959)\<close> the draws 11066 to
  11068 (the second candidate of star 1655 of a build with that seed) make a candidate of
  Euclidean length below 1, also when its coordinates are first rounded to single
  precision; the sampler started there discards it and the next candidate, and returns
  the third one, after nine draws.
\<close>

theorem random_point_in_sphere_rejection_sampling_counterexample:
  "norm3 (candidate_at draws_1959 11066) < 1 \<and>
   Vector (candidate_at draws_1959 11066) =
     (Fin (- (13673065 / 2 ^ 24)), Fin (- (12168699 / 2 ^ 26)), Fin (9234037 / 2 ^ 24)) \<and>
   norm3 (- (13673065 / 2 ^ 24), - (12168699 / 2 ^ 26), 9234037 / 2 ^ 24) < 1 \<and>
   random_point_in_sphere 10 \<lparr>draws = draws_1959, pos = 11066\<rparr> =
     Some ((Fin (7153753 / 2 ^ 23), Fin (- (13799015 / 2 ^ 25)), Fin (- (1428823 / 2 ^ 18))),
           \<lparr>draws = draws_1959, pos = 11075\<rparr>)"
proof (intro conjI)
  show "norm3 (candidate_at draws_1959 11066) < 1"
    unfolding seed_1959_1_candidate by (rule norm3_lt) simp_all
  show "Vector (candidate_at draws_1959 11066) =
     (Fin (- (13673065 / 2 ^ 24)), Fin (- (12168699 / 2 ^ 26)), Fin (9234037 / 2 ^ 24))"
    by (rule seed_1959_1_vector)
  show "norm3 (- (13673065 / 2 ^ 24), - (12168699 / 2 ^ 26), 9234037 / 2 ^ 24) < 1"
    by (rule norm3_lt) simp_all
  let ?g = "\<lambda>n. \<lparr>draws = draws_1959, pos = n\<rparr>"
  have "random_point_in_sphere 10 (?g 11066) = random_point_in_sphere 10 (?g 11069)"
    using rps_reject[of "?g 11066" 10] seed_1959_1_rejected by simp
  also have "\<dots> = random_point_in_sphere 10 (?g 11072)"
    using rps_reject[of "?g 11069" 10] seed_1959_2_rejected by simp
  also have "\<dots> = Some (Vector_mul (Vector (candidate_at draws_1959 11072)) 10, ?g 11075)"
    using rps_accept[of "?g 11072" 10] seed_1959_3_accepted
    by (simp del: Vector.simps Vector_mul.simps)
  finally show "random_point_in_sphere 10 (?g 11066) =
     Some ((Fin (7153753 / 2 ^ 23), Fin (- (13799015 / 2 ^ 25)), Fin (- (1428823 / 2 ^ 18))),
           ?g 11075)"
    unfolding seed_1959_3_scaled .
qed

text \<open>
  Claim C4, amended. \<open>random_point_in_sphere\<close> is rejection sampling on the computed
  length: the candidates are the successive triples of \<open>uniform (- 1) 1\<close> draws; the
  result is the first candidate whose vector of single precision components has a
  computed \<^verbatim>\<open>length <= 1.0\<close>, that vector multiplied by the radius in single
  precision; the draws of the rejected candidates before it are used up; and the
  function does not return exactly when every candidate is rejected. With draws in
  \<open>[0, 1)\<close> every coordinate of a candidate lies in \<open>[- 1, 1)\<close>. The computed test
  agrees with the Euclidean length away from the sphere: a candidate of Euclidean length
  at most \<open>1 - 1 / 2 ^ 21\<close> is accepted, and an accepted candidate has Euclidean length at
  most \<open>1 + 1 / 2 ^ 21\<close>.
\<close>

theorem random_point_in_sphere_rejection_sampling:
  "(random_point_in_sphere radius g = Some res \<longleftrightarrow>
      (\<exists>k. (\<forall>j<k. \<not> accepted (draws g) (pos g + 3 * j)) \<and>
           accepted (draws g) (pos g + 3 * k) \<and>
           res = (Vector_mul (Vector (candidate_at (draws g) (pos g + 3 * k))) radius,
                  g\<lparr>pos := pos g + 3 * (k + 1)\<rparr>))) \<and>
   (random_point_in_sphere radius g = None \<longleftrightarrow>
      (\<forall>k. \<not> accepted (draws g) (pos g + 3 * k))) \<and>
   candidate_at (draws g) n =
      (fst (uniform (- 1) 1 (g\<lparr>pos := n\<rparr>)),
       fst (uniform (- 1) 1 (snd (uniform (- 1) 1 (g\<lparr>pos := n\<rparr>)))),
       fst (uniform (- 1) 1 (snd (uniform (- 1) 1 (snd (uniform (- 1) 1 (g\<lparr>pos := n\<rparr>))))))) \<and>
   accepted (draws g) n =
      float_le (Vector_length (Vector (candidate_at (draws g) n))) (Fin 1) \<and>
   (unit_draws (draws g) \<longrightarrow>
      (case candidate_at (draws g) n of
         (x, y, z) \<Rightarrow> - 1 \<le> x \<and> x < 1 \<and> - 1 \<le> y \<and> y < 1 \<and> - 1 \<le> z \<and> z < 1)) \<and>
   (norm3 (candidate_at (draws g) n) \<le> 1 - 1 / 2 ^ 21 \<longrightarrow> accepted (draws g) n) \<and>
   (accepted (draws g) n \<longrightarrow> norm3 (candidate_at (draws g) n) \<le> 1 + 1 / 2 ^ 21)"
proof (intro conjI)
  show "random_point_in_sphere radius g = Some res \<longleftrightarrow>
      (\<exists>k. (\<forall>j<k. \<not> accepted (draws g) (pos g + 3 * j)) \<and>
           accepted (draws g) (pos g + 3 * k) \<and>
           res = (Vector_mul (Vector (candidate_at (draws g) (pos g + 3 * k))) radius,
                  g\<lparr>pos := pos g + 3 * (k + 1)\<rparr>))"
    unfolding rps_Some_iff first_accept_def ..
  show "random_point_in_sphere radius g = None \<longleftrightarrow>
      (\<forall>k. \<not> accepted (draws g) (pos g + 3 * k))"
    by (rule rps_None_iff)
  show "candidate_at (draws g) n =
      (fst (uniform (- 1) 1 (g\<lparr>pos := n\<rparr>)),
       fst (uniform (- 1) 1 (snd (uniform (- 1) 1 (g\<lparr>pos := n\<rparr>)))),
       fst (uniform (- 1) 1 (snd (uniform (- 1) 1 (snd (uniform (- 1) 1 (g\<lparr>pos := n\<rparr>)))))))"
    by (simp add: candidate_at_def uniform_def random_random_def)
  show "accepted (draws g) n =
      float_le (Vector_length (Vector (candidate_at (draws g) n))) (Fin 1)"
    by (rule accepted_def)
  show "unit_draws (draws g) \<longrightarrow>
      (case candidate_at (draws g) n of
         (x, y, z) \<Rightarrow> - 1 \<le> x \<and> x < 1 \<and> - 1 \<le> y \<and> y < 1 \<and> - 1 \<le> z \<and> z < 1)"
  proof
    assume "unit_draws (draws g)"
    then have "0 \<le> draws g n \<and> draws g n < 1" "0 \<le> draws g (n + 1) \<and> draws g (n + 1) < 1"
      "0 \<le> draws g (n + 2) \<and> draws g (n + 2) < 1"
      unfolding unit_draws_def by blast+
    then show "case candidate_at (draws g) n of
         (x, y, z) \<Rightarrow> - 1 \<le> x \<and> x < 1 \<and> - 1 \<le> y \<and> y < 1 \<and> - 1 \<le> z \<and> z < 1"
      by (simp add: candidate_at_def)
  qed
  show "norm3 (candidate_at (draws g) n) \<le> 1 - 1 / 2 ^ 21 \<longrightarrow> accepted (draws g) n"
    using norm_accepted by blast
  show "accepted (draws g) n \<longrightarrow> norm3 (candidate_at (draws g) n) \<le> 1 + 1 / 2 ^ 21"
    using accepted_norm by blast
qed

theorem random_point_in_sphere_rejection_sampling_witness:
  "\<not> accepted (example_gen 42) 0 \<and>
   unit_draws (example_gen 42) \<and>
   candidate_at (example_gen 42) 0 = (- 1, - 1, - 1) \<and>
   candidate_at (example_gen 42) 3 = (- 1 / 2, 0, 1 / 2) \<and>
   norm3 (- 1 / 2, 0, 1 / 2) \<le> 1 - 1 / 2 ^ 21 \<and>
   accepted (example_gen 42) 3 \<and>
   norm3 (- 1 / 2, 0, 1 / 2) \<le> 1 + 1 / 2 ^ 21 \<and>
   random_point_in_sphere 10 \<lparr>draws = example_gen 42, pos = 0\<rparr> =
     Some ((Fin (- 5), Fin 0, Fin 5), \<lparr>draws = example_gen 42, pos = 6\<rparr>)"
proof -
  let ?g = "\<lparr>draws = example_gen 42, pos = 0\<rparr>"
  let ?res = "((Fin (- 5), Fin 0, Fin 5), \<lparr>draws = example_gen 42, pos = 6\<rparr>)"
  note T = random_point_in_sphere_rejection_sampling[of 10 ?g ?res 3]
  have c0: "candidate_at (example_gen 42) 0 = (- 1, - 1, - 1)"
    and c3: "candidate_at (example_gen 42) 3 = (- 1 / 2, 0, 1 / 2)"
    by (simp_all add: candidate_at_def example_gen_def)
  have u: "unit_draws (example_gen 42)" by (rule example_gen_unit)
  have l0: "\<not> accepted (example_gen 42) 0"
    by (simp add: accepted_def candidate_at_def example_gen_def float_simps del: f64_sqrt.simps)
  have n3: "norm3 (- 1 / 2, 0, 1 / 2) \<le> 1 - 1 / 2 ^ 21"
    by (rule norm3_le) simp_all
  have "norm3 (candidate_at (example_gen 42) 3) \<le> 1 - 1 / 2 ^ 21 \<longrightarrow>
      accepted (example_gen 42) 3"
    using T[THEN conjunct2, THEN conjunct2, THEN conjunct2, THEN conjunct2, THEN conjunct2,
            THEN conjunct1]
    by simp
  with n3 have l3: "accepted (example_gen 42) 3" unfolding c3 by blast
  have "accepted (example_gen 42) 3 \<longrightarrow>
      norm3 (candidate_at (example_gen 42) 3) \<le> 1 + 1 / 2 ^ 21"
    using T[THEN conjunct2, THEN conjunct2, THEN conjunct2, THEN conjunct2, THEN conjunct2,
            THEN conjunct2]
    by simp
  with l3 have m3: "norm3 (- 1 / 2, 0, 1 / 2) \<le> 1 + 1 / 2 ^ 21" unfolding c3 by blast
  have s3: "Vector_mul (Vector (candidate_at (example_gen 42) 3)) 10 = (Fin (- 5), Fin 0, Fin 5)"
    unfolding c3 by (simp add: float_simps)
  have "\<exists>k. (\<forall>j<k. \<not> accepted (draws ?g) (pos ?g + 3 * j)) \<and>
           accepted (draws ?g) (pos ?g + 3 * k) \<and>
           ?res = (Vector_mul (Vector (candidate_at (draws ?g) (pos ?g + 3 * k))) 10,
                   ?g\<lparr>pos := pos ?g + 3 * (k + 1)\<rparr>)"
    using l0 l3 s3 by (intro exI[of _ 1]) simp
  with T[THEN conjunct1] have "random_point_in_sphere 10 ?g = Some ?res" by blast
  with c0 c3 l0 l3 n3 m3 u show ?thesis by blast
qed



text \<open>
  Claim C6. When \<open>star_size_min \<le> star_size_max\<close>, as the operator's clamp ensures, and
  the generator's values lie in \<open>[0, 1)\<close>, every star created by \<open>generate_starfield\<close>
  has the same scale \<open>x\<close> on its three axes with
  \<open>star_size_min \<le> x \<le> star_size_max\<close>. (The drawn scale is a double, taken as the real it denotes.)
\<close>

theorem star_scale_in_range:
  assumes "star_size_min s \<le> star_size_max s"
    and "unit_draws (gen (random_seed s))"
    and "generate_starfield gen s w = Some w'"
  shows "\<forall>ob \<in> set (created w w').
           \<exists>x. scale ob = (x, x, x) \<and> star_size_min s \<le> x \<and> x \<le> star_size_max s"
proof -
  from assms(3) obtain obs g where
    st: "stars_of s STAR_MESH_NAME [0..<nat (star_count s)] (seed gen (random_seed s)) = Some (obs, g)"
    and cr: "created w w' = obs"
    by (rule generate_starfield_Some)
  from assms(2) have "unit_draws (draws (seed gen (random_seed s)))" by (simp add: seed_def)
  from stars_of_scale[OF st assms(1) this] cr show ?thesis by simp
qed

theorem star_scale_in_range_witness:
  "(\<exists>w'. generate_starfield example_gen example_settings example_world = Some w' \<and>
        map scale (created example_world w') = [(7 / 4, 7 / 4, 7 / 4), (5 / 2, 5 / 2, 5 / 2)]) \<and>
   (1::real) \<le> 7 / 4 \<and> (7 / 4 :: real) \<le> 3 \<and> (1::real) \<le> 5 / 2 \<and> (5 / 2 :: real) \<le> 3"
proof -
  from example_run obtain w' where
    run: "generate_starfield example_gen example_settings example_world = Some w'"
    and cr: "map scale (created example_world w') = [(7 / 4, 7 / 4, 7 / 4), (5 / 2, 5 / 2, 5 / 2)]"
    by auto
  have "star_size_min example_settings \<le> star_size_max example_settings"
    by (simp add: example_settings_def)
  moreover have "unit_draws (example_gen (random_seed example_settings))"
    by (rule example_gen_unit)
  ultimately have "\<forall>ob \<in> set (created example_world w').
      \<exists>x. scale ob = (x, x, x) \<and> star_size_min example_settings \<le> x \<and> x \<le> star_size_max example_settings"
    using run by (rule star_scale_in_range)
  then have "\<forall>v \<in> set (map scale (created example_world w')).
      \<exists>x. v = (x, x, x) \<and> 1 \<le> x \<and> x \<le> 3"
    by (simp add: example_settings_def)
  then have "(1::real) \<le> 7 / 4 \<and> (7 / 4 :: real) \<le> 3 \<and> (1::real) \<le> 5 / 2 \<and> (5 / 2 :: real) \<le> 3"
    unfolding cr by simp
  moreover from run cr have
    "\<exists>w'. generate_starfield example_gen example_settings example_world = Some w' \<and>
        map scale (created example_world w') = [(7 / 4, 7 / 4, 7 / 4), (5 / 2, 5 / 2, 5 / 2)]"
    by (intro exI[of _ w'] conjI)
  ultimately show ?thesis by (intro conjI) simp_all
qed

text \<open>
  Claim C9. The operator first raises the minimum size to at least \<open>0.0001\<close> and then the
  maximum size to at least that minimum, so the settings it hands to \<open>generate_starfield\<close>
  satisfy \<open>0.0001 \<le> star_size_min \<le> star_size_max\<close> for every value of the properties.
\<close>

theorem execute_size_range:
  "0.0001 \<le> star_size_min (execute_settings props) \<and>
   star_size_min (execute_settings props) \<le> star_size_max (execute_settings props) \<and>
   star_size_min (execute_settings props) = max 0.0001 (props_star_size_min props) \<and>
   star_size_max (execute_settings props) =
     max (star_size_min (execute_settings props)) (props_star_size_max props) \<and>
   execute gen props w =
     map_option (\<lambda>w'. (w', [(INFO, ''Generated '' @ str_int (props_star_count props) @
                                   '' stars in '' @ [CHR 0x27] @ props_collection_name props @
                                   [CHR 0x27] @ '' collection'')], FINISHED))
       (generate_starfield gen (execute_settings props) w)"
  by (simp add: execute_def execute_settings_def py_max_def Let_def split: option.splits)

theorem execute_size_range_witness:
  "star_size_min (execute_settings (example_props\<lparr>props_star_size_min := - 3,
      props_star_size_max := 0.00001\<rparr>)) = 0.0001 \<and>
   star_size_max (execute_settings (example_props\<lparr>props_star_size_min := - 3,
      props_star_size_max := 0.00001\<rparr>)) = 0.0001 \<and>
   (0.0001 :: real) \<le> 0.0001"
proof -
  let ?p = "example_props\<lparr>props_star_size_min := - 3, props_star_size_max := 0.00001\<rparr>"
  have "star_size_min (execute_settings ?p) = 0.0001"
    and "star_size_max (execute_settings ?p) = 0.0001"
    by (simp_all add: execute_settings_def py_max_def Let_def)
  with execute_size_range[of ?p example_gen example_world] show ?thesis by simp
qed

text \<open>
  Claim C5. When the supplied minimum size exceeds the supplied maximum, the operator's
  settings have the maximum raised to the minimum, the minimum is not lowered, the operator
  reports only at level INFO and finishes, and every star it creates has the minimum as its
  scale. The instance is the supplied range \<open>0.5, 0.1\<close>: every scale is \<open>0.5\<close>.
\<close>

theorem execute_clamps_size_max:
  assumes "props_star_size_max props < props_star_size_min props"
  shows "star_size_max (execute_settings props) = star_size_min (execute_settings props) \<and>
         props_star_size_min props \<le> star_size_min (execute_settings props) \<and>
         (\<forall>w' reports status. execute gen props w = Some (w', reports, status) \<longrightarrow>
            status = FINISHED \<and> (\<forall>r \<in> set reports. fst r = INFO) \<and>
            (\<forall>ob \<in> set (created w w').
               scale ob = (star_size_min (execute_settings props),
                           star_size_min (execute_settings props),
                           star_size_min (execute_settings props))))"
proof (intro conjI allI impI)
  show eq: "star_size_max (execute_settings props) = star_size_min (execute_settings props)"
    using assms by (simp add: execute_settings_def py_max_def Let_def)
  show "props_star_size_min props \<le> star_size_min (execute_settings props)"
    by (simp add: execute_settings_def py_max_def Let_def)
  fix w' reports status
  assume ex: "execute gen props w = Some (w', reports, status)"
  then show "status = FINISHED" and "\<forall>r \<in> set reports. fst r = INFO"
    by (auto simp: execute_def Let_def split: option.splits)
  from ex have run: "generate_starfield gen (execute_settings props) w = Some w'"
    by (auto simp: execute_def Let_def split: option.splits)
  then obtain obs g where
    st: "stars_of (execute_settings props) STAR_MESH_NAME
           [0..<nat (star_count (execute_settings props))]
           (seed gen (random_seed (execute_settings props))) = Some (obs, g)"
    and cr: "created w w' = obs"
    by (rule generate_starfield_Some)
  have "\<forall>ob \<in> set obs. scale ob = (star_size_min s, star_size_min s, star_size_min s)"
    if "stars_of s m is g0 = Some (obs, g)" "star_size_max s = star_size_min s"
    for s m "is" g0 obs
    using that
  proof (induction "is" arbitrary: g0 obs)
    case Nil
    then show ?case by simp
  next
    case (Cons i rest)
    from Cons.prems(1) obtain ob g1 obs' where
      so: "star_of s m i g0 = Some (ob, g1)" and re: "stars_of s m rest g1 = Some (obs', g)"
      and obs: "obs = ob # obs'"
      unfolding stars_of_Cons_Some by blast
    from so Cons.prems(2)
    have "scale ob = (star_size_min s, star_size_min s, star_size_min s)"
      by (auto simp: star_of_Some_iff Let_def)
    with Cons.IH[OF re Cons.prems(2)] obs show ?case by simp
  qed
  from this[OF st eq] cr
  show "\<forall>ob \<in> set (created w w').
               scale ob = (star_size_min (execute_settings props),
                           star_size_min (execute_settings props),
                           star_size_min (execute_settings props))"
    by simp
qed

theorem execute_clamps_size_max_witness:
  "props_star_size_max example_props < props_star_size_min example_props \<and>
   props_star_size_min example_props = 0.5 \<and> props_star_size_max example_props = 0.1 \<and>
   star_size_min (execute_settings example_props) = 0.5 \<and>
   star_size_max (execute_settings example_props) = 0.5 \<and>
   (\<exists>w'. execute example_gen example_props example_world =
           Some (w', [(INFO, ''Generated 2 stars in '' @ [CHR 0x27] @ ''Starfield'' @
                             [CHR 0x27] @ '' collection'')], FINISHED) \<and>
         map scale (created example_world w') = [(0.5, 0.5, 0.5), (0.5, 0.5, 0.5)])"
proof -
  have h: "props_star_size_max example_props < props_star_size_min example_props"
    and p: "props_star_size_min example_props = 0.5" "props_star_size_max example_props = 0.1"
    by (simp_all add: example_props_def)
  have m: "star_size_min (execute_settings example_props) = 0.5"
    by (simp add: execute_settings_def example_props_def py_max_def Let_def)
  note c = execute_clamps_size_max[OF h, of example_gen example_world]
  from c m have mx: "star_size_max (execute_settings example_props) = 0.5" by simp
  from example_exec_run obtain w' where
    "execute example_gen example_props example_world =
       Some (w', [(INFO, ''Generated 2 stars in '' @ [CHR 0x27] @ ''Starfield'' @
                         [CHR 0x27] @ '' collection'')], FINISHED)"
    and "map scale (created example_world w') = [(1 / 2, 1 / 2, 1 / 2), (1 / 2, 1 / 2, 1 / 2)]"
    by auto
  then have "execute example_gen example_props example_world =
           Some (w', [(INFO, ''Generated 2 stars in '' @ [CHR 0x27] @ ''Starfield'' @
                             [CHR 0x27] @ '' collection'')], FINISHED) \<and>
         map scale (created example_world w') = [(0.5, 0.5, 0.5), (0.5, 0.5, 0.5)]"
    by simp
  then have "\<exists>w'. execute example_gen example_props example_world =
           Some (w', [(INFO, ''Generated 2 stars in '' @ [CHR 0x27] @ ''Starfield'' @
                             [CHR 0x27] @ '' collection'')], FINISHED) \<and>
         map scale (created example_world w') = [(0.5, 0.5, 0.5), (0.5, 0.5, 0.5)]"
    by (rule exI[of _ w'])
  with h p m mx show ?thesis by (intro conjI)
qed

text \<open>
  Claim C7. In every iteration \<open>i\<close> of the loop of \<open>generate_starfield\<close> the location
  is drawn before the scale: with \<open>b\<close> the index of the iteration's first draw and \<open>k\<close> the
  number of candidates it rejects, the location is made of the draws \<open>b + 3 * k\<close> to
  \<open>b + 3 * k + 2\<close>, the scale of the draw \<open>b + 3 * k + 3\<close>, and the next iteration starts at
  \<open>b + 3 * k + 4\<close>; the first iteration starts at draw 0 of the seeded stream.
\<close>

theorem generate_starfield_draw_order:
  assumes "generate_starfield gen s w = Some w'"
  shows "\<exists>ks. length ks = nat (star_count s) \<and> length (created w w') = nat (star_count s) \<and>
           rng w' = \<lparr>draws = gen (random_seed s), pos = draw_start ks (nat (star_count s))\<rparr> \<and>
           (\<forall>i < nat (star_count s).
              let d = gen (random_seed s); b = draw_start ks i; k = ks ! i;
                  x = star_size_min s + (star_size_max s - star_size_min s) * d (b + 3 * k + 3)
              in (\<forall>j<k. \<not> accepted d (b + 3 * j)) \<and>
                 accepted d (b + 3 * k) \<and>
                 location (created w w' ! i) = Vector_mul (Vector (candidate_at d (b + 3 * k))) (field_radius s) \<and>
                 scale (created w w' ! i) = (x, x, x) \<and>
                 draw_start ks (Suc i) = b + 3 * k + 3 + 1)"
proof -
  let ?n = "nat (star_count s)"
  from assms obtain obs g where
    st: "stars_of s STAR_MESH_NAME [0..<?n] (seed gen (random_seed s)) = Some (obs, g)"
    and w': "w' = add_stars (collection_name s) obs g (prepared gen s w)"
    and cr: "created w w' = obs"
    by (rule generate_starfield_Some)
  from stars_of_trace[OF st] obtain ks where
    len: "length ks = ?n"
    and g: "g = \<lparr>draws = gen (random_seed s), pos = draw_start ks ?n\<rparr>"
    and tr: "\<forall>i<?n. star_drawn s (gen (random_seed s)) (draw_start ks i) (ks ! i) (obs ! i)"
    by (auto simp: seed_def)
  have nx: "draw_start ks (Suc i) = draw_start ks i + 3 * (ks ! i) + 3 + 1" if "i < ?n" for i
    using that len by (simp add: draw_start_def take_Suc_conv_app_nth)
  have "length (created w w') = ?n" using stars_of_length[OF st] cr by simp
  moreover have "rng w' = \<lparr>draws = gen (random_seed s), pos = draw_start ks ?n\<rparr>"
    using w' g by (simp add: add_stars_def)
  ultimately show ?thesis
    using len tr nx cr by (intro exI[of _ ks]) (simp add: star_drawn_def Let_def)
qed

theorem generate_starfield_draw_order_witness:
  "\<exists>w'. generate_starfield example_gen example_settings example_world = Some w' \<and>
     rng w' = \<lparr>draws = example_gen 42, pos = 11\<rparr> \<and>
     location (created example_world w' ! 0) = Vector_mul (Vector (candidate_at (example_gen 42) 3)) 10 \<and>
     scale (created example_world w' ! 0) =
       (1 + (3 - 1) * example_gen 42 6, 1 + (3 - 1) * example_gen 42 6,
        1 + (3 - 1) * example_gen 42 6) \<and>
     location (created example_world w' ! 1) = Vector_mul (Vector (candidate_at (example_gen 42) 7)) 10 \<and>
     scale (created example_world w' ! 1) =
       (1 + (3 - 1) * example_gen 42 10, 1 + (3 - 1) * example_gen 42 10,
        1 + (3 - 1) * example_gen 42 10)"
proof -
  let ?d = "example_gen 42"
  from example_run obtain w' where
    run: "generate_starfield example_gen example_settings example_world = Some w'"
    by auto
  have s: "star_count example_settings = 2" "random_seed example_settings = 42"
    "star_size_min example_settings = 1" "star_size_max example_settings = 3"
    "field_radius example_settings = 10"
    by (simp_all add: example_settings_def)
  have A0: "\<not> accepted ?d 0"
    and A3: "accepted ?d 3"
    and A7: "accepted ?d 7"
    by (simp_all add: accepted_def candidate_at_def example_gen_def float_simps
          del: f64_sqrt.simps)
  from generate_starfield_draw_order[OF run, unfolded s] obtain ks where
    rngw: "rng w' = \<lparr>draws = ?d, pos = draw_start ks (nat 2)\<rparr>"
    and tr: "\<And>i. i < nat 2 \<Longrightarrow>
           (\<forall>j<ks ! i. \<not> accepted ?d (draw_start ks i + 3 * j)) \<and>
           accepted ?d (draw_start ks i + 3 * (ks ! i)) \<and>
           location (created example_world w' ! i) =
             Vector_mul (Vector (candidate_at ?d (draw_start ks i + 3 * (ks ! i)))) 10 \<and>
           scale (created example_world w' ! i) =
             (1 + (3 - 1) * ?d (draw_start ks i + 3 * (ks ! i) + 3),
              1 + (3 - 1) * ?d (draw_start ks i + 3 * (ks ! i) + 3),
              1 + (3 - 1) * ?d (draw_start ks i + 3 * (ks ! i) + 3)) \<and>
           draw_start ks (Suc i) = draw_start ks i + 3 * (ks ! i) + 3 + 1"
    unfolding Let_def by blast
  have d0: "draw_start ks 0 = 0" by (simp add: draw_start_def)
  note t0 = tr[of 0, unfolded d0, simplified]
  have "ks ! 0 \<noteq> 0"
  proof
    assume z: "ks ! 0 = 0"
    from t0 have "accepted ?d (3 * (ks ! 0))" by blast
    with z A0 show False by simp
  qed
  moreover have "\<not> 1 < ks ! 0"
  proof
    assume "1 < ks ! 0"
    with t0 have "\<not> accepted ?d (3 * 1)" by blast
    with A3 show False by simp
  qed
  ultimately have k0: "ks ! 0 = 1" by linarith
  from t0 k0 have d1: "draw_start ks (Suc 0) = 7" by simp
  note t1 = tr[of "Suc 0", unfolded d1, simplified]
  have k1: "ks ! Suc 0 = 0"
  proof (rule ccontr)
    assume "ks ! Suc 0 \<noteq> 0"
    then have "0 < ks ! Suc 0" by simp
    with t1 have "\<not> accepted ?d (7 + 3 * 0)" by blast
    with A7 show False by simp
  qed
  from t1 k1 have d2: "draw_start ks (nat 2) = 11" by (simp add: numeral_2_eq_2)
  from run rngw t0 t1 k0 k1 d2 show ?thesis
    by (intro exI[of _ w']) simp
qed

text \<open>
  Claim C10. After a run of \<open>generate_starfield\<close> with \<open>star_count \<ge> 0\<close> the
  \<open>star_count\<close> new objects are objects the database did not have before. With
  \<open>clear_existing\<close> the target collection holds exactly these, and the objects it held
  before are gone from the database; without it the collection holds its former objects
  followed by the new ones, and no object of the former database has changed.
\<close>

theorem generate_starfield_collection:
  assumes "generate_starfield gen s w = Some w'" and "0 \<le> star_count s"
  shows "let c = collection_name s; old = collection_objects w c;
             new = [length (objects w)..<length (objects w) + nat (star_count s)]
         in int (length new) = star_count s \<and>
            (\<forall>i \<in> set new. lookup_object w i = None) \<and>
            map (lookup_object w') new = map Some (created w w') \<and>
            (clear_existing s \<longrightarrow>
               collection_objects w' c = new \<and>
               (\<forall>i \<in> set old. i < length (objects w) \<longrightarrow> lookup_object w' i = None)) \<and>
            (\<not> clear_existing s \<longrightarrow>
               collection_objects w' c = old @ new \<and>
               (\<forall>i < length (objects w). lookup_object w' i = lookup_object w i))"
proof -
  let ?n = "nat (star_count s)" and ?c = "collection_name s" and ?p = "prepared gen s w"
  let ?new = "[length (objects w)..<length (objects w) + ?n]"
  from assms(1) obtain obs g where
    st: "stars_of s STAR_MESH_NAME [0..<?n] (seed gen (random_seed s)) = Some (obs, g)"
    and w': "w' = add_stars ?c obs g ?p"
    and cr: "created w w' = obs"
    by (rule generate_starfield_Some)
  have len: "length obs = ?n" using stars_of_length[OF st] by simp
  have a: "int (length ?new) = star_count s" using assms(2) by simp
  have b: "\<forall>i \<in> set ?new. lookup_object w i = None" by (simp add: lookup_object_def)
  have "map (lookup_object w') ?new = map Some obs"
    unfolding w'
    by (rule nth_equalityI) (simp_all add: len lookup_object_add_stars prepared_length)
  with cr have c: "map (lookup_object w') ?new = map Some (created w w')" by simp
  have co: "collection_objects w' ?c = collection_objects ?p ?c @ ?new"
    unfolding w' by (simp add: collection_objects_add_stars prepared_length len)
  have d: "collection_objects w' ?c = ?new \<and>
           (\<forall>i \<in> set (collection_objects w ?c).
              i < length (objects w) \<longrightarrow> lookup_object w' i = None)"
    if cl: "clear_existing s"
  proof
    show "collection_objects w' ?c = ?new" using co prepared_clear(1)[OF cl] by simp
    show "\<forall>i \<in> set (collection_objects w ?c).
            i < length (objects w) \<longrightarrow> lookup_object w' i = None"
    proof (intro ballI impI)
      fix i assume i: "i \<in> set (collection_objects w ?c)" and l: "i < length (objects w)"
      from prepared_clear(2)[OF cl i] have "lookup_object ?p i = None" .
      with l show "lookup_object w' i = None"
        unfolding w' by (simp add: lookup_object_add_stars prepared_length)
    qed
  qed
  have e: "collection_objects w' ?c = collection_objects w ?c @ ?new \<and>
           (\<forall>i < length (objects w). lookup_object w' i = lookup_object w i)"
    if ncl: "\<not> clear_existing s"
  proof
    show "collection_objects w' ?c = collection_objects w ?c @ ?new"
      using co prepared_keep(2)[OF ncl] by simp
    have "lookup_object ?p i = lookup_object w i" for i
      by (rule lookup_object_cong) (rule prepared_keep(1)[OF ncl])
    then show "\<forall>i < length (objects w). lookup_object w' i = lookup_object w i"
      unfolding w' by (simp add: lookup_object_add_stars prepared_length)
  qed
  from a b c d e show ?thesis by (simp add: Let_def)
qed

theorem generate_starfield_collection_witness:
  "(\<exists>w'. generate_starfield example_gen example_settings example_world = Some w' \<and>
      collection_objects example_world ''Starfield'' = [0] \<and>
      collection_objects w' ''Starfield'' = [1, 2] \<and>
      lookup_object w' 0 = None \<and>
      map (lookup_object w') [1, 2] = map Some (created example_world w')) \<and>
   (\<exists>w'. generate_starfield example_gen (example_settings\<lparr>clear_existing := False\<rparr>)
            example_world = Some w' \<and>
      collection_objects w' ''Starfield'' = [0, 1, 2] \<and>
      lookup_object w' 0 = lookup_object example_world 0 \<and>
      map (lookup_object w') [1, 2] = map Some (created example_world w'))"
proof -
  let ?s2 = "example_settings\<lparr>clear_existing := False\<rparr>"
  have old: "collection_objects example_world ''Starfield'' = [0]"
    and len: "length (objects example_world) = 1"
    by (simp_all add: example_world_def collection_objects_def)
  have u: "[1..<1 + nat 2] = [1, 2]" by (simp add: upt_conv_Cons)
  from example_run obtain w1 where
    r1: "generate_starfield example_gen example_settings example_world = Some w1"
    by auto
  have "0 \<le> star_count example_settings" by (simp add: example_settings_def)
  from generate_starfield_collection[OF r1 this]
  have "collection_objects w1 ''Starfield'' = [1, 2] \<and> lookup_object w1 0 = None \<and>
        map (lookup_object w1) [1, 2] = map Some (created example_world w1)"
    by (simp add: Let_def old len example_settings_def u numeral_2_eq_2)
  with r1 old have first:
    "\<exists>w'. generate_starfield example_gen example_settings example_world = Some w' \<and>
      collection_objects example_world ''Starfield'' = [0] \<and>
      collection_objects w' ''Starfield'' = [1, 2] \<and>
      lookup_object w' 0 = None \<and>
      map (lookup_object w') [1, 2] = map Some (created example_world w')"
    by - (rule exI[of _ w1], simp)
  have "recurrent (example_gen (random_seed ?s2))" by (rule example_gen_recurrent)
  then have "generate_starfield example_gen ?s2 example_world \<noteq> None"
    unfolding generate_starfield_None seed_def by (intro stars_of_total) simp
  then obtain w2 where r2: "generate_starfield example_gen ?s2 example_world = Some w2"
    by auto
  have "0 \<le> star_count ?s2" by (simp add: example_settings_def)
  from generate_starfield_collection[OF r2 this]
  have "collection_objects w2 ''Starfield'' = [0, 1, 2] \<and>
        lookup_object w2 0 = lookup_object example_world 0 \<and>
        map (lookup_object w2) [1, 2] = map Some (created example_world w2)"
    by (simp add: Let_def old len example_settings_def u numeral_2_eq_2)
  with r2 have second:
    "\<exists>w'. generate_starfield example_gen ?s2 example_world = Some w' \<and>
      collection_objects w' ''Starfield'' = [0, 1, 2] \<and>
      lookup_object w' 0 = lookup_object example_world 0 \<and>
      map (lookup_object w') [1, 2] = map Some (created example_world w')"
    by - (rule exI[of _ w2], simp)
  from first second show ?thesis ..
qed

end
